theory Spec2Isabelle
  imports Complex_Main
begin

section \<open>The frame-streaming loop of VideoAnalyzer.tsx\<close>

text \<open>
  The component \<open>VideoAnalyzer\<close> captures a camera frame every 2.5 seconds, posts it to
  \<open>{apiUrl}/analyze/frame\<close>, appends the answer to a bounded log and narrates it. The
  loop is the anonymous callback handed to \<open>window.setInterval\<close> in
  \<open>startFrameStreaming\<close>. It is asynchronous: it runs up to the \<open>fetch\<close> call, is
  suspended, and is resumed when the request settles. The embedding therefore splits it
  into \<open>streamingTick\<close> (the synchronous part up to the \<open>await\<close>) and
  \<open>streamingResume\<close> (the rest of the \<open>try\<close>/\<open>catch\<close>/\<open>finally\<close>). Between the
  \<open>await\<close>s that follow the first one the callback touches no component state, so
  resuming it is one atomic step of the event loop. A promise need not settle at all: the
  callback that awaits one that never does is never resumed.
\<close>

subsection \<open>JavaScript values\<close>

text \<open>
  A string is the list of its code units, one \<open>char\<close> each, which covers the text whose
  code units fit eight bits; on such text \<open>s.slice(0, n)\<close> is \<open>take n s\<close>. The two symbols
  of the user interface that lie outside that range (a dash and a warning sign, both in
  fixed messages only) are written as their UTF-8 bytes.
\<close>

definition emdash :: string where
  "emdash = [CHR 0xE2, CHR 0x80, CHR 0x94]"

definition warnsign :: string where
  "warnsign = [CHR 0xE2, CHR 0x9A, CHR 0xA0, CHR 0xEF, CHR 0xB8, CHR 0x8F]"

definition quote :: string where
  "quote = [CHR 0x27]"

text \<open>A thrown value: an \<open>Error\<close> (or \<open>DOMException\<close>) with its \<open>name\<close> and \<open>message\<close>.\<close>

datatype js_error = JsError (err_name: string) (err_message: string)

text \<open>
  What \<open>response.json()\<close> yields. An object is the list of its own properties, each
  name once; a number is the value of the parsed literal.
\<close>

datatype json =
    JNull
  | JBool bool
  | JNum rat
  | JStr string
  | JArr "json list"
  | JObj "(string \<times> json) list"

text \<open>
  Reading a property \<open>v.k\<close>. \<open>None\<close> is \<open>undefined\<close>. Reading a property of \<open>null\<close>
  throws a \<open>TypeError\<close> (the message is the one of V8). None of the four property names
  the loop reads (\<open>success\<close>, \<open>answer\<close>, \<open>question\<close>, \<open>error\<close>) is defined on the
  prototypes of booleans, numbers, strings or arrays.
\<close>

fun getProp :: "json \<Rightarrow> string \<Rightarrow> js_error + json option" where
  "getProp JNull k =
     Inl (JsError ''TypeError''
            (''Cannot read properties of null (reading '' @ quote @ k @ quote @ '')''))"
| "getProp (JObj kvs) k = Inr (map_of kvs k)"
| "getProp (JBool b) k = Inr None"
| "getProp (JNum n) k = Inr None"
| "getProp (JStr s) k = Inr None"
| "getProp (JArr xs) k = Inr None"

text \<open>JavaScript truthiness, as tested by \<open>&&\<close>, \<open>||\<close> and \<open>if\<close>.\<close>

fun truthy :: "json option \<Rightarrow> bool" where
  "truthy None = False"
| "truthy (Some JNull) = False"
| "truthy (Some (JBool b)) = b"
| "truthy (Some (JNum n)) = (n \<noteq> 0)"
| "truthy (Some (JStr s)) = (s \<noteq> [])"
| "truthy (Some (JArr xs)) = True"
| "truthy (Some (JObj kvs)) = True"

text \<open>
  The value of a field, for stating properties: \<open>None\<close> when the field is absent and
  when the value is \<open>null\<close>, which has no fields.
\<close>

definition fieldOf :: "json \<Rightarrow> string \<Rightarrow> json option" where
  "fieldOf v k = (case getProp v k of Inl err \<Rightarrow> None | Inr x \<Rightarrow> x)"

text \<open>Sequencing of computations that may throw.\<close>

definition bindE :: "js_error + 'a \<Rightarrow> ('a \<Rightarrow> js_error + 'b) \<Rightarrow> js_error + 'b" where
  "bindE m f = (case m of Inl e \<Rightarrow> Inl e | Inr x \<Rightarrow> f x)"

text \<open>
  A promise the callback awaits: it is rejected, fulfilled, or never settles. Awaiting
  one that never settles suspends the callback for good.
\<close>

datatype 'a promise = Never | Settled "js_error + 'a"

definition await :: "'a promise \<Rightarrow> ('a \<Rightarrow> 'b promise) \<Rightarrow> 'b promise" where
  "await p f =
     (case p of
        Never \<Rightarrow> Never
      | Settled (Inl err) \<Rightarrow> Settled (Inl err)
      | Settled (Inr x) \<Rightarrow> f x)"

text \<open>The decimal digits of a number, as a template literal prints it.\<close>

fun showNat :: "nat \<Rightarrow> string" where
  "showNat n =
     (if n < 10 then [''0123456789'' ! n]
      else showNat (n div 10) @ [''0123456789'' ! (n mod 10)])"

declare showNat.simps [simp del]

subsection \<open>The HTTP exchange\<close>

text \<open>
  The body of the request, \<open>JSON.stringify({data, timestamp, question})\<close>, sent to
  \<open>url\<close>.
\<close>

record request =
  req_url :: string
  req_data :: string
  req_timestamp :: nat
  req_question :: string

text \<open>
  A response, as \<open>fetch\<close> hands it over once the status line and headers are in: its
  status, and the promises of \<open>response.text()\<close> and \<open>response.json()\<close>, which wait for
  the body (either may reject, and neither settles if the body never arrives).
  \<open>response.ok\<close> is true for the statuses 200 to 299.
\<close>

record response =
  resp_status :: nat
  resp_text :: "string promise"
  resp_json :: "json promise"

definition resp_ok :: "response \<Rightarrow> bool" where
  "resp_ok r = (200 \<le> resp_status r \<and> resp_status r \<le> 299)"

text \<open>
  What the network does with one request: after \<open>elapsed\<close> milliseconds the promise of
  \<open>fetch\<close> would settle to \<open>settled\<close> (rejected with an error, or fulfilled with a
  response).
\<close>

record fetch_result =
  elapsed :: nat
  settled :: "js_error + response"

text \<open>
  \<open>setTimeout(() => controller.abort(), 15000)\<close>: a fetch that has not settled when the
  timer fires is rejected with an \<open>AbortError\<close>; one that settles earlier is followed by
  \<open>clearTimeout(timeout)\<close>, before the body is read. (At exactly 15000 ms the browser may
  run either first; the model takes the abort. A fetch that would never settle by itself
  is one whose \<open>elapsed\<close> is large.)
\<close>

definition abortAfter :: nat where
  "abortAfter = 15000"

definition fetchWithAbort :: "fetch_result \<Rightarrow> js_error + response" where
  "fetchWithAbort fr =
     (if elapsed fr < abortAfter then settled fr
      else Inl (JsError ''AbortError'' ''signal is aborted without reason''))"

subsection \<open>Component state\<close>

text \<open>
  An entry of the log. The interface declares \<open>answer\<close> and \<open>question\<close> as strings, but
  the values come out of the untyped \<open>result\<close> through a cast, so they are whatever JSON
  value the backend sent. The same holds for the message in \<open>streamError\<close>.
\<close>

record RealTimeResult =
  timestamp :: nat
  answer :: json
  question :: json

text \<open>What the camera's video element reports when a handler looks at it.\<close>

record video =
  readyState :: nat
  videoWidth :: nat
  videoHeight :: nat

text \<open>
  The callbacks registered with \<open>window.setInterval\<close>. The streaming callback is a
  closure over the \<open>apiUrl\<close> of the render that started it.
\<close>

datatype callback = StreamingCallback string | RecordingCallback

text \<open>
  The state hooks and refs of the component that the loop reads or writes, followed by
  what the browser holds for it: the alerts shown, the answers handed to
  \<open>speakPrediction\<close>, the live interval timers with the next free handle (handles are
  positive, so a stored handle is truthy), the number of calls of \<open>fetch\<close> made so far,
  and the requests that were sent and whose cycle has not finished.
\<close>

record state =
  apiUrl :: string
  mediaStream :: bool
  isCameraActive :: bool
  isRecording :: bool
  isStreaming :: bool
  recordingTime :: nat
  mediaRecorderRef :: bool
  recordingIntervalRef :: "nat option"
  streamingIntervalRef :: "nat option"
  captureCanvasRef :: "(nat \<times> nat) option"
  frameInFlightRef :: bool
  realTimeResults :: "RealTimeResult list"
  streamError :: json
  alerts :: "string list"
  spoken :: "json list"
  intervals :: "(nat \<times> callback) list"
  nextHandle :: nat
  fetchCalls :: nat
  pending :: "request list"

definition init :: "string \<Rightarrow> state" where
  "init url =
     \<lparr> apiUrl = url, mediaStream = False, isCameraActive = False, isRecording = False,
       isStreaming = False, recordingTime = 0, mediaRecorderRef = False,
       recordingIntervalRef = None, streamingIntervalRef = None, captureCanvasRef = None,
       frameInFlightRef = False, realTimeResults = [], streamError = JStr [],
       alerts = [], spoken = [], intervals = [], nextHandle = 1, fetchCalls = 0,
       pending = [] \<rparr>"

text \<open>\<open>window.setInterval\<close> and \<open>clearInterval\<close>.\<close>

definition setInterval :: "callback \<Rightarrow> state \<Rightarrow> nat \<times> state" where
  "setInterval cb s =
     (nextHandle s,
      s\<lparr> intervals := intervals s @ [(nextHandle s, cb)], nextHandle := Suc (nextHandle s) \<rparr>)"

definition clearInterval :: "nat \<Rightarrow> state \<Rightarrow> state" where
  "clearInterval h s = s\<lparr> intervals := filter (\<lambda>p. fst p \<noteq> h) (intervals s) \<rparr>"

subsection \<open>Result sink\<close>

text \<open>
  \<open>speakPrediction(answer)\<close> cancels the utterance in progress and speaks a new one
  built from \<open>answer\<close>. The model records the argument of each call.
\<close>

definition speakPrediction :: "json \<Rightarrow> state \<Rightarrow> state" where
  "speakPrediction a s = s\<lparr> spoken := spoken s @ [a] \<rparr>"

text \<open>
  \<open>xs.slice(-n)\<close> for a positive \<open>n\<close>: the last \<open>n\<close> elements, all of them when there
  are fewer.
\<close>

definition sliceLast :: "nat \<Rightarrow> 'a list \<Rightarrow> 'a list" where
  "sliceLast n xs = drop (length xs - n) xs"

text \<open>\<open>prev => [...prev.slice(-19), entry]\<close>\<close>

definition appendResult :: "RealTimeResult list \<Rightarrow> RealTimeResult \<Rightarrow> RealTimeResult list" where
  "appendResult prev entry = sliceLast 19 prev @ [entry]"

text \<open>\<open>a || d\<close>\<close>

definition orElse :: "json option \<Rightarrow> json \<Rightarrow> json" where
  "orElse a d = (case a of None \<Rightarrow> d | Some v \<Rightarrow> if truthy (Some v) then v else d)"

definition defaultQuestion :: string where
  "defaultQuestion = ''what is in the picture''"

definition timeoutMessage :: string where
  "timeoutMessage = ''Request timed out. Backend may be busy.''"

definition networkMessage :: string where
  "networkMessage = ''Network error '' @ emdash @ '' check your ngrok URL and CORS settings.''"

text \<open>
  The \<open>else if (result.error)\<close> branch of the callback: a truthy \<open>error\<close> property is
  shown, anything else leaves the state as it is.
\<close>

definition onNoAnswer :: "json \<Rightarrow> state \<Rightarrow> js_error + state" where
  "onNoAnswer result s =
     bindE (getProp result ''error'') (\<lambda>err.
       case err of
         None \<Rightarrow> Inr s
       | Some e \<Rightarrow> if truthy (Some e) then Inr (s\<lparr> streamError := e \<rparr>) else Inr s)"

text \<open>
  The statements after \<open>const result = await response.json()\<close>. The test
  \<open>result.success && result.answer\<close> reads \<open>answer\<close> only when \<open>success\<close> is truthy;
  the branch then reads \<open>result.answer\<close> once more, which yields the same value.
\<close>

definition onResult :: "nat \<Rightarrow> json \<Rightarrow> state \<Rightarrow> js_error + state" where
  "onResult now result s =
     bindE (getProp result ''success'') (\<lambda>success.
     bindE (if truthy success then getProp result ''answer'' else Inr None) (\<lambda>answerRead.
       case answerRead of
         None \<Rightarrow> onNoAnswer result s
       | Some a \<Rightarrow>
           if truthy (Some a) then
             bindE (getProp result ''question'') (\<lambda>q.
               let answer = (if a = JStr ''unanswerable'' \<or> a = JStr ''unsuitable''
                             then JStr ''object'' else a);
                   entry = \<lparr> timestamp = now, answer = answer,
                             question = orElse q (JStr defaultQuestion) \<rparr>
               in Inr (speakPrediction answer
                        (s\<lparr> realTimeResults := appendResult (realTimeResults s) entry \<rparr>)))
           else onNoAnswer result s))"

text \<open>
  The body of the \<open>try\<close> block from the point where \<open>fetch\<close> has settled. The abort
  timer is cleared by then, so nothing bounds the two body reads.
\<close>

definition tryBody :: "nat \<Rightarrow> js_error + response \<Rightarrow> state \<Rightarrow> state promise" where
  "tryBody now fetched s =
     (case fetched of
        Inl err \<Rightarrow> Settled (Inl err)
      | Inr response \<Rightarrow>
          if \<not> resp_ok response then
            await (resp_text response) (\<lambda>text.
              Settled (Inl (JsError ''Error''
                 (''HTTP '' @ showNat (resp_status response) @ '': '' @ take 120 text))))
          else
            await (resp_json response) (\<lambda>result. Settled (onResult now result s)))"

text \<open>The \<open>catch (err)\<close> block.\<close>

definition catchBlock :: "js_error \<Rightarrow> state \<Rightarrow> state" where
  "catchBlock err s =
     (if err_name err = ''AbortError'' then s\<lparr> streamError := JStr timeoutMessage \<rparr>
      else s\<lparr> streamError :=
                 JStr (if err_message err = [] then networkMessage else err_message err) \<rparr>)"

text \<open>
  The callback from its first \<open>await\<close> on: \<open>try\<close>, \<open>catch\<close>, and the \<open>finally\<close> block
  that clears the in-flight flag. Nothing in the \<open>try\<close> block throws after it has
  changed the state, so the \<open>catch\<close> block starts from the state the block was entered
  with. The result is \<open>None\<close> when the callback is never resumed to its end, because
  the body read it awaits never settles; then neither \<open>catch\<close> nor \<open>finally\<close> runs.
\<close>

definition streamingResume :: "fetch_result \<Rightarrow> nat \<Rightarrow> state \<Rightarrow> state option" where
  "streamingResume fr now s =
     (case tryBody now (fetchWithAbort fr) s of
        Never \<Rightarrow> None
      | Settled r \<Rightarrow>
          Some ((case r of Inr s1 \<Rightarrow> s1 | Inl err \<Rightarrow> catchBlock err s)
                  \<lparr> frameInFlightRef := False \<rparr>))"

subsection \<open>Loop controller\<close>

text \<open>
  The callback up to the \<open>fetch\<close> call. \<open>videoEl\<close> is \<open>cameraVideoRef.current\<close>, \<open>ctx\<close>
  tells whether \<open>canvas.getContext('2d')\<close> is non-null, \<open>jpegDataUrl\<close> is what
  \<open>canvas.toDataURL\<close> returns, \<open>now\<close> is \<open>Date.now()\<close>.
\<close>

definition streamingTick ::
  "string \<Rightarrow> video option \<Rightarrow> bool \<Rightarrow> string \<Rightarrow> nat \<Rightarrow> state \<Rightarrow> state" where
  "streamingTick url videoEl ctx jpegDataUrl now s =
     (if frameInFlightRef s then s
      else case videoEl of
        None \<Rightarrow> s
      | Some v \<Rightarrow>
          if readyState v < 2 \<or> videoWidth v = 0 then s
          else
            let s1 = s\<lparr> captureCanvasRef := Some (videoWidth v, videoHeight v) \<rparr>
            in if ctx then
                 s1\<lparr> frameInFlightRef := True, streamError := JStr [],
                     fetchCalls := Suc (fetchCalls s1),
                     pending := pending s1 @
                       [\<lparr> req_url = url @ ''/analyze/frame'', req_data = jpegDataUrl,
                          req_timestamp = now, req_question = ''what is in the picture'' \<rparr>] \<rparr>
               else s1)"

definition startFrameStreaming :: "video option \<Rightarrow> state \<Rightarrow> state" where
  "startFrameStreaming videoEl s =
     (if videoEl = None \<or> apiUrl s = [] then s
      else
        let s1 = (case streamingIntervalRef s of
                    None \<Rightarrow> s
                  | Some h \<Rightarrow> (clearInterval h s)\<lparr> streamingIntervalRef := None \<rparr>);
            s2 = s1\<lparr> frameInFlightRef := False \<rparr>;
            (h, s3) = setInterval (StreamingCallback (apiUrl s)) s2
        in s3\<lparr> streamingIntervalRef := Some h \<rparr>)"

subsection \<open>Camera and recording handlers\<close>

definition alert :: "string \<Rightarrow> state \<Rightarrow> state" where
  "alert msg s = s\<lparr> alerts := alerts s @ [msg] \<rparr>"

text \<open>
  \<open>startCamera\<close> from the point where \<open>getUserMedia\<close> has settled (\<open>None\<close>: a stream was
  granted).
\<close>

definition startCamera :: "js_error option \<Rightarrow> state \<Rightarrow> state" where
  "startCamera denied s =
     (case denied of
        None \<Rightarrow> s\<lparr> mediaStream := True, isCameraActive := True, realTimeResults := [],
                   streamError := JStr [] \<rparr>
      | Some err \<Rightarrow>
          alert (warnsign @ '' Error accessing camera: '' @
                 (if err_message err = [] then ''Camera access denied'' else err_message err)) s)"

definition stopCamera :: "state \<Rightarrow> state" where
  "stopCamera s =
     (let s1 = (if mediaStream s then s\<lparr> mediaStream := False, isCameraActive := False \<rparr> else s);
          s2 = (case streamingIntervalRef s1 of
                  None \<Rightarrow> s1
                | Some h \<Rightarrow> (clearInterval h s1)\<lparr> streamingIntervalRef := None \<rparr>);
          s3 = s2\<lparr> frameInFlightRef := False, isRecording := False, isStreaming := False,
                   recordingTime := 0 \<rparr>
      in case recordingIntervalRef s3 of
           None \<Rightarrow> s3
         | Some h \<Rightarrow> (clearInterval h s3)\<lparr> recordingIntervalRef := None \<rparr>)"

text \<open>
  \<open>startRecording\<close>. \<open>newThrows\<close> and \<open>startThrows\<close> say whether \<open>new MediaRecorder\<close>
  and \<open>mr.start(500)\<close> throw; both are inside the \<open>try\<close> whose \<open>catch\<close> alerts. The
  recorded chunks are not part of the model.
\<close>

definition recordingFailed :: "js_error \<Rightarrow> state \<Rightarrow> state" where
  "recordingFailed err s =
     alert (warnsign @ '' Error starting recording: '' @
            (if err_message err = [] then ''Recording failed'' else err_message err)) s"

definition startRecording ::
  "video option \<Rightarrow> js_error option \<Rightarrow> js_error option \<Rightarrow> state \<Rightarrow> state" where
  "startRecording videoEl newThrows startThrows s =
     (if \<not> mediaStream s then alert (warnsign @ '' Please start camera first'') s
      else if (case videoEl of None \<Rightarrow> True
               | Some v \<Rightarrow> readyState v < 2 \<or> videoWidth v = 0)
      then alert (warnsign @
             '' Camera is still starting. Please wait a second and try again.'') s
      else
        (case newThrows of
           Some err \<Rightarrow> recordingFailed err s
         | None \<Rightarrow>
             let s1 = s\<lparr> mediaRecorderRef := True \<rparr>
             in (case startThrows of
                   Some err \<Rightarrow> recordingFailed err s1
                 | None \<Rightarrow>
                     let s2 = s1\<lparr> isRecording := True, isStreaming := True,
                                  recordingTime := 0, realTimeResults := [],
                                  streamError := JStr [] \<rparr>;
                         s3 = startFrameStreaming videoEl s2;
                         (h, s4) = setInterval RecordingCallback s3
                     in s4\<lparr> recordingIntervalRef := Some h \<rparr>)))"

text \<open>\<open>try { body } catch { }\<close>: whatever the body throws is swallowed.\<close>

definition tryIgnore :: "js_error option \<Rightarrow> js_error + unit" where
  "tryIgnore thrown = (case thrown of None \<Rightarrow> Inr () | Some err \<Rightarrow> Inr ())"

text \<open>
  \<open>stopRecording\<close>. \<open>requestDataThrows\<close> says whether \<open>mr.requestData()\<close> throws. The
  result is \<open>Inl\<close> when the handler throws. The guard \<open>!mr || !isRecording\<close> of the early
  return is written as the condition under which the handler goes on. The delayed
  \<open>mr.stop()\<close> touches only the recorded file and is left out.
\<close>

definition stopRecording :: "js_error option \<Rightarrow> state \<Rightarrow> js_error + state" where
  "stopRecording requestDataThrows s =
     (if mediaRecorderRef s \<and> isRecording s then
        bindE (tryIgnore requestDataThrows) (\<lambda>_.
          let s1 = s\<lparr> isRecording := False, isStreaming := False \<rparr>;
              s2 = (case recordingIntervalRef s1 of
                      None \<Rightarrow> s1
                    | Some h \<Rightarrow> (clearInterval h s1)\<lparr> recordingIntervalRef := None \<rparr>);
              s3 = (case streamingIntervalRef s2 of
                      None \<Rightarrow> s2
                    | Some h \<Rightarrow> (clearInterval h s2)\<lparr> streamingIntervalRef := None \<rparr>)
          in Inr (s3\<lparr> frameInFlightRef := False \<rparr>))
      else Inr s)"

subsection \<open>The event loop\<close>

text \<open>
  The browser runs one handler at a time. \<open>Fire h\<close> is the interval timer \<open>h\<close> going
  off; \<open>Settle i\<close> is the network having dealt with the \<open>i\<close>-th outstanding request,
  which resumes the callback that sent it; when the callback is never resumed to its
  end, the state stays as it is and the request stays outstanding. An event that finds
  no such timer or request does nothing. A handler that threw would leave the state to its caller as it found it; \<open>stopRecording\<close>,
  the only handler modelled with that outcome, never does.
\<close>

datatype event =
    StartCamera "js_error option"
  | StartRecording "video option" "js_error option" "js_error option"
  | StopRecording "js_error option"
  | StopCamera
  | Fire nat "video option" bool string nat
  | Settle nat fetch_result nat

fun step :: "event \<Rightarrow> state \<Rightarrow> state" where
  "step (StartCamera denied) s = startCamera denied s"
| "step (StartRecording videoEl newThrows startThrows) s =
     startRecording videoEl newThrows startThrows s"
| "step (StopRecording requestDataThrows) s =
     (case stopRecording requestDataThrows s of Inr s' \<Rightarrow> s' | Inl err \<Rightarrow> s)"
| "step StopCamera s = stopCamera s"
| "step (Fire h videoEl ctx jpegDataUrl now) s =
     (case map_of (intervals s) h of
        None \<Rightarrow> s
      | Some RecordingCallback \<Rightarrow> s\<lparr> recordingTime := recordingTime s + 1 \<rparr>
      | Some (StreamingCallback url) \<Rightarrow> streamingTick url videoEl ctx jpegDataUrl now s)"
| "step (Settle i fr now) s =
     (if i < length (pending s) then
        (case streamingResume fr now
                (s\<lparr> pending := take i (pending s) @ drop (Suc i) (pending s) \<rparr>) of
           None \<Rightarrow> s
         | Some s' \<Rightarrow> s')
      else s)"

definition run :: "event list \<Rightarrow> state \<Rightarrow> state" where
  "run evs s = foldl (\<lambda>s e. step e s) s evs"

subsection \<open>Predicates on events and states\<close>

text \<open>The events that start a recording, and the events of the loop itself.\<close>

fun isStartRecording :: "event \<Rightarrow> bool" where
  "isStartRecording (StartRecording videoEl newThrows startThrows) = True"
| "isStartRecording e = False"

fun isLoopEvent :: "event \<Rightarrow> bool" where
  "isLoopEvent (Fire h videoEl ctx jpegDataUrl now) = True"
| "isLoopEvent (Settle i fr now) = True"
| "isLoopEvent e = False"

text \<open>
  The body read that the callback awaits for a response settles; and, for a whole
  exchange: the fetch is aborted or rejected, or the body read after it settles.
\<close>

definition bodySettles :: "response \<Rightarrow> bool" where
  "bodySettles r = (if resp_ok r then resp_json r \<noteq> Never else resp_text r \<noteq> Never)"

definition cycleCompletes :: "fetch_result \<Rightarrow> bool" where
  "cycleCompletes fr =
     (case fetchWithAbort fr of Inl err \<Rightarrow> True | Inr r \<Rightarrow> bodySettles r)"

text \<open>
  The events that never resume a suspended callback to its end: a tick, and an exchange
  that does not complete.
\<close>

fun neverResumes :: "event \<Rightarrow> bool" where
  "neverResumes (Fire h videoEl ctx jpegDataUrl now) = True"
| "neverResumes (Settle i fr now) = (\<not> cycleCompletes fr)"
| "neverResumes e = False"

text \<open>The handles of the live timers that run the streaming callback.\<close>

definition streamingTimers :: "state \<Rightarrow> nat list" where
  "streamingTimers s = map fst (filter (\<lambda>p. snd p \<noteq> RecordingCallback) (intervals s))"

text \<open>
  Every live streaming timer is the one whose handle \<open>streamingIntervalRef\<close> holds, and
  a handle is held only while a recording is on.
\<close>

definition tracked :: "state \<Rightarrow> bool" where
  "tracked s =
     ((\<forall>h \<in> set (streamingTimers s). streamingIntervalRef s = Some h)
      \<and> (streamingIntervalRef s = None \<or> (isRecording s \<and> mediaRecorderRef s)))"

text \<open>Either no request is outstanding, or exactly one is and the flag is set.\<close>

definition singleFlight :: "state \<Rightarrow> bool" where
  "singleFlight s = (pending s = [] \<or> (frameInFlightRef s \<and> length (pending s) = 1))"

subsection \<open>Sample inputs\<close>

text \<open>A camera that delivers frames, one that is still warming up, and some responses.\<close>

definition readyVideo :: video where
  "readyVideo = \<lparr> readyState = 4, videoWidth = 1280, videoHeight = 720 \<rparr>"

definition coldVideo :: video where
  "coldVideo = \<lparr> readyState = 0, videoWidth = 0, videoHeight = 0 \<rparr>"

definition localUrl :: string where
  "localUrl = ''http://localhost:5000''"

definition jsonResponse :: "nat \<Rightarrow> json \<Rightarrow> fetch_result" where
  "jsonResponse ms body =
     \<lparr> elapsed = ms,
       settled = Inr \<lparr> resp_status = 200, resp_text = Settled (Inr []),
                       resp_json = Settled (Inr body) \<rparr> \<rparr>"

definition answerResponse :: "nat \<Rightarrow> string \<Rightarrow> fetch_result" where
  "answerResponse ms a =
     jsonResponse ms (JObj [(''success'', JBool True), (''answer'', JStr a)])"

definition overloadedResponse :: fetch_result where
  "overloadedResponse =
     \<lparr> elapsed = 300,
       settled = Inr \<lparr> resp_status = 500,
                       resp_text = Settled (Inr ''{\"error\":\"model overloaded\"}''),
                       resp_json =
                         Settled (Inr (JObj [(''error'', JStr ''model overloaded'')])) \<rparr> \<rparr>"

definition neverAnswered :: fetch_result where
  "neverAnswered = \<lparr> elapsed = 60000, settled = Inl (JsError ''TypeError'' ''Failed to fetch'') \<rparr>"

text \<open>
  A response whose headers arrive after 300 ms and whose body never does; one whose body
  breaks off while it is read; and a fetch that fails at once.
\<close>

definition stalledResponse :: fetch_result where
  "stalledResponse =
     \<lparr> elapsed = 300,
       settled = Inr \<lparr> resp_status = 200, resp_text = Never, resp_json = Never \<rparr> \<rparr>"

definition brokenBodyResponse :: fetch_result where
  "brokenBodyResponse =
     \<lparr> elapsed = 300,
       settled = Inr \<lparr> resp_status = 500,
                       resp_text = Settled (Inl (JsError ''TypeError'' ''network error'')),
                       resp_json = Settled (Inl (JsError ''TypeError'' ''network error'')) \<rparr> \<rparr>"

definition refusedFetch :: fetch_result where
  "refusedFetch = \<lparr> elapsed = 40, settled = Inl (JsError ''TypeError'' ''Failed to fetch'') \<rparr>"







text \<open>A state in which the loop is running: the camera is on and recording has started.\<close>

definition streaming :: state where
  "streaming =
     run [StartCamera None, StartRecording (Some readyVideo) None None] (init localUrl)"

text \<open>The same state after the first tick: one request is outstanding.\<close>

definition firstTick :: event where
  "firstTick = Fire 1 (Some readyVideo) True ''data:a'' 1000"

definition awaiting :: state where
  "awaiting = step firstTick streaming"

section \<open>Properties\<close>

lemmas resume_defs = streamingResume_def tryBody_def fetchWithAbort_def bindE_def await_def
  onResult_def onNoAnswer_def catchBlock_def speakPrediction_def Let_def

lemmas handler_defs = startCamera_def startRecording_def stopRecording_def stopCamera_def
  startFrameStreaming_def streamingTick_def setInterval_def clearInterval_def alert_def
  recordingFailed_def tryIgnore_def

lemmas sample_defs = readyVideo_def coldVideo_def localUrl_def jsonResponse_def
  answerResponse_def overloadedResponse_def neverAnswered_def stalledResponse_def
  brokenBodyResponse_def refusedFetch_def

lemma streaming_eval:
  "streaming =
     \<lparr> apiUrl = localUrl, mediaStream = True, isCameraActive = True, isRecording = True,
       isStreaming = True, recordingTime = 0, mediaRecorderRef = True,
       recordingIntervalRef = Some 2, streamingIntervalRef = Some 1, captureCanvasRef = None,
       frameInFlightRef = False, realTimeResults = [], streamError = JStr [],
       alerts = [], spoken = [],
       intervals = [(1, StreamingCallback localUrl), (2, RecordingCallback)],
       nextHandle = 3, fetchCalls = 0, pending = [] \<rparr>"
  by (simp add: streaming_def run_def init_def handler_defs sample_defs)

lemma awaiting_eval:
  "awaiting =
     \<lparr> apiUrl = localUrl, mediaStream = True, isCameraActive = True, isRecording = True,
       isStreaming = True, recordingTime = 0, mediaRecorderRef = True,
       recordingIntervalRef = Some 2, streamingIntervalRef = Some 1,
       captureCanvasRef = Some (1280, 720), frameInFlightRef = True, realTimeResults = [],
       streamError = JStr [], alerts = [], spoken = [],
       intervals = [(1, StreamingCallback localUrl), (2, RecordingCallback)],
       nextHandle = 3, fetchCalls = 1,
       pending = [\<lparr> req_url = localUrl @ ''/analyze/frame'', req_data = ''data:a'',
                     req_timestamp = 1000, req_question = ''what is in the picture'' \<rparr>] \<rparr>"
  by (simp add: awaiting_def firstTick_def streaming_eval streamingTick_def sample_defs)

subsection \<open>The cycle after the request has settled\<close>

text \<open>Reading a property of anything but \<open>null\<close> yields the field and does not throw.\<close>

lemma getProp_fieldOf:
  "result \<noteq> JNull \<Longrightarrow> getProp result k = Inr (fieldOf result k)"
  by (cases result) (simp_all add: fieldOf_def)

lemma fieldOf_null: "fieldOf JNull k = None"
  by (simp add: fieldOf_def)

text \<open>
  The callback is resumed to its end exactly when the exchange completes. What it then
  changes is the log, the narration, the message and the flag, nothing else; and what it
  does to the first three depends on nothing else in the state.
\<close>

lemma resume_None_iff: "streamingResume fr now s = None \<longleftrightarrow> \<not> cycleCompletes fr"
  by (simp add: streamingResume_def tryBody_def await_def cycleCompletes_def bodySettles_def
      split: sum.splits promise.splits)

lemma resume_clears_flag:
  "streamingResume fr now s = Some s' \<Longrightarrow> frameInFlightRef s' = False"
  by (auto simp: streamingResume_def split: promise.splits)

lemma onResult_keeps:
  "case onResult now result s of Inl err \<Rightarrow> True
   | Inr s' \<Rightarrow> s' = s\<lparr> realTimeResults := realTimeResults s', streamError := streamError s',
                       spoken := spoken s' \<rparr>"
  by (simp add: onResult_def onNoAnswer_def bindE_def speakPrediction_def Let_def
      split: sum.split option.split)

lemma onResult_view:
  assumes "realTimeResults t = realTimeResults s" and "spoken t = spoken s"
    and "streamError t = streamError s"
  shows "case onResult now result s of
           Inl err \<Rightarrow> onResult now result t = Inl err
         | Inr s' \<Rightarrow> (case onResult now result t of Inl err \<Rightarrow> False
             | Inr t' \<Rightarrow> realTimeResults t' = realTimeResults s' \<and> spoken t' = spoken s'
                         \<and> streamError t' = streamError s')"
  using assms
  by (simp add: onResult_def onNoAnswer_def bindE_def speakPrediction_def Let_def
      split: sum.split option.split)

lemma tryBody_Inr:
  assumes "tryBody now fetched s = Settled (Inr s1)"
  shows "\<exists>result. onResult now result s = Inr s1"
proof (cases fetched)
  case (Inl err)
  with assms show ?thesis
    by (simp add: tryBody_def)
next
  case (Inr response)
  show ?thesis
  proof (cases "resp_ok response")
    case False
    with Inr assms show ?thesis
      by (simp add: tryBody_def await_def split: promise.splits sum.splits)
  next
    case True
    with Inr assms show ?thesis
      by (auto simp: tryBody_def await_def split: promise.splits sum.splits)
  qed
qed

lemma resume_keeps:
  assumes "streamingResume fr now s = Some s'"
  shows "s' = s\<lparr> realTimeResults := realTimeResults s', streamError := streamError s',
                 spoken := spoken s', frameInFlightRef := False \<rparr>"
proof (cases "tryBody now (fetchWithAbort fr) s")
  case Never
  with assms show ?thesis
    by (simp add: streamingResume_def)
next
  case (Settled r)
  show ?thesis
  proof (cases r)
    case (Inl err)
    with Settled assms show ?thesis
      by (auto simp: streamingResume_def catchBlock_def)
  next
    case (Inr s1)
    with Settled obtain result where "onResult now result s = Inr s1"
      using tryBody_Inr by blast
    then have e1: "s1 = s\<lparr> realTimeResults := realTimeResults s1,
                             streamError := streamError s1, spoken := spoken s1 \<rparr>"
      using onResult_keeps [where now = now and result = result and s = s] by simp
    have e2: "s' = s1\<lparr> frameInFlightRef := False \<rparr>"
      using Settled Inr assms by (simp add: streamingResume_def)
    have e3: "s1\<lparr> frameInFlightRef := False \<rparr> =
              (s\<lparr> realTimeResults := realTimeResults s1, streamError := streamError s1,
                   spoken := spoken s1 \<rparr>)\<lparr> frameInFlightRef := False \<rparr>"
      using arg_cong [OF e1, of "\<lambda>u. u\<lparr> frameInFlightRef := False \<rparr>"] .
    have e4: "realTimeResults s' = realTimeResults s1" "streamError s' = streamError s1"
      "spoken s' = spoken s1"
      by (simp_all add: e2)
    show ?thesis
      unfolding e4 using e2 e3 by simp
  qed
qed

lemma resume_fields:
  assumes "streamingResume fr now s = Some s'"
  shows "intervals s' = intervals s" and "streamingIntervalRef s' = streamingIntervalRef s"
    and "isRecording s' = isRecording s" and "mediaRecorderRef s' = mediaRecorderRef s"
    and "pending s' = pending s" and "fetchCalls s' = fetchCalls s"
proof -
  note k = resume_keeps [OF assms]
  show "intervals s' = intervals s" by (subst k) simp
  show "streamingIntervalRef s' = streamingIntervalRef s" by (subst k) simp
  show "isRecording s' = isRecording s" by (subst k) simp
  show "mediaRecorderRef s' = mediaRecorderRef s" by (subst k) simp
  show "pending s' = pending s" by (subst k) simp
  show "fetchCalls s' = fetchCalls s" by (subst k) simp
qed

lemma tryBody_view:
  assumes "realTimeResults t = realTimeResults s" and "spoken t = spoken s"
    and "streamError t = streamError s"
  shows "case tryBody now fetched s of
           Never \<Rightarrow> tryBody now fetched t = Never
         | Settled r \<Rightarrow>
             (case r of
                Inl err \<Rightarrow> tryBody now fetched t = Settled (Inl err)
              | Inr s' \<Rightarrow> (\<exists>t'. tryBody now fetched t = Settled (Inr t')
                   \<and> realTimeResults t' = realTimeResults s' \<and> spoken t' = spoken s'
                   \<and> streamError t' = streamError s'))"
proof (cases fetched)
  case (Inl err)
  then show ?thesis
    by (simp add: tryBody_def)
next
  case (Inr response)
  show ?thesis
  proof (cases "resp_ok response")
    case False
    with Inr show ?thesis
      by (simp add: tryBody_def await_def split: promise.split sum.split)
  next
    case True
    have a: "onResult now result t = Inl err" if "onResult now result s = Inl err"
      for result err
      using onResult_view [OF assms, where now = now and result = result] that by simp
    have b: "\<exists>t'. onResult now result t = Inr t'
               \<and> realTimeResults t' = realTimeResults s' \<and> spoken t' = spoken s'
               \<and> streamError t' = streamError s'" if "onResult now result s = Inr s'"
      for result s'
      using onResult_view [OF assms, where now = now and result = result] that
      by (simp split: sum.splits)
    from Inr True show ?thesis
      by (simp add: tryBody_def await_def split: promise.split sum.split) (use a b in blast)
  qed
qed

lemma resume_same_outcome:
  assumes "realTimeResults t = realTimeResults s" and "spoken t = spoken s"
    and "streamError t = streamError s"
  shows "case streamingResume fr now s of
           None \<Rightarrow> streamingResume fr now t = None
         | Some s' \<Rightarrow> (\<exists>t'. streamingResume fr now t = Some t'
              \<and> realTimeResults t' = realTimeResults s' \<and> spoken t' = spoken s'
              \<and> streamError t' = streamError s')"
  using tryBody_view [OF assms, where now = now and fetched = "fetchWithAbort fr"] assms
  by (auto simp: streamingResume_def catchBlock_def split: promise.splits sum.splits)

text \<open>What a response that carries an answer does to the state.\<close>

lemma resume_success:
  assumes "elapsed fr < abortAfter" and "settled fr = Inr resp" and "resp_ok resp"
    and "resp_json resp = Settled (Inr result)"
    and "truthy (fieldOf result ''success'')"
    and "fieldOf result ''answer'' = Some a" and "truthy (Some a)"
  shows "streamingResume fr now s = Some
     (s\<lparr> realTimeResults := appendResult (realTimeResults s)
           \<lparr> timestamp = now,
             answer = (if a = JStr ''unanswerable'' \<or> a = JStr ''unsuitable''
                       then JStr ''object'' else a),
             question = orElse (fieldOf result ''question'') (JStr defaultQuestion) \<rparr>,
         spoken := spoken s @ [if a = JStr ''unanswerable'' \<or> a = JStr ''unsuitable''
                               then JStr ''object'' else a],
         frameInFlightRef := False \<rparr>)"
proof -
  have nn: "result \<noteq> JNull"
    using assms(5) by (auto simp: fieldOf_null)
  show ?thesis
    using assms getProp_fieldOf [OF nn] by (simp add: resume_defs)
qed

text \<open>What a fetch that is rejected, or aborted, does to the state.\<close>

lemma resume_rejected:
  assumes "fetchWithAbort fr = Inl err"
  shows "streamingResume fr now s = Some ((catchBlock err s)\<lparr> frameInFlightRef := False \<rparr>)"
  using assms by (simp add: streamingResume_def tryBody_def)

text \<open>
  Once the flag is set, ticks are skipped, and an exchange that does not complete changes
  nothing: the flag stays set for as long as nothing else happens.
\<close>

lemma unresumed_step:
  assumes "frameInFlightRef s" and "neverResumes e"
  shows "frameInFlightRef (step e s) \<and> fetchCalls (step e s) = fetchCalls s
       \<and> pending (step e s) = pending s \<and> streamError (step e s) = streamError s
       \<and> realTimeResults (step e s) = realTimeResults s \<and> spoken (step e s) = spoken s"
proof (cases e)
  case (Fire h v c d now)
  with assms(1) show ?thesis
    by (simp add: streamingTick_def split: option.splits callback.splits)
next
  case (Settle i fr now)
  with assms(2) have "streamingResume fr now t = None" for t
    by (simp add: resume_None_iff)
  with Settle assms(1) show ?thesis
    by simp
qed (use assms(2) in simp_all)

lemma unresumed_run:
  assumes "frameInFlightRef s" and "list_all neverResumes evs"
  shows "frameInFlightRef (run evs s) \<and> fetchCalls (run evs s) = fetchCalls s
       \<and> pending (run evs s) = pending s \<and> streamError (run evs s) = streamError s
       \<and> realTimeResults (run evs s) = realTimeResults s \<and> spoken (run evs s) = spoken s"
  using assms
proof (induction evs arbitrary: s)
  case Nil
  then show ?case
    by (simp add: run_def)
next
  case (Cons e evs)
  from Cons.prems have e: "neverResumes e" and rest: "list_all neverResumes evs"
    by simp_all
  note st = unresumed_step [OF Cons.prems(1) e]
  from st have flag: "frameInFlightRef (step e s)"
    by simp
  have "run (e # evs) s = run evs (step e s)"
    by (simp add: run_def)
  then show ?case
    using Cons.IH [OF flag rest] st by simp
qed

text \<open>
  Claim C2 as stated fails. A response whose headers arrive in time clears the abort
  timer; when its body then never arrives, \<open>await response.json()\<close> never returns, the
  \<open>finally\<close> block is never reached, and the flag stays set: every later tick is
  skipped.
\<close>

theorem stalled_body_keeps_flag_set:
  "streamingResume stalledResponse 1300 awaiting = None
   \<and> frameInFlightRef
       (run [Settle 0 stalledResponse 1300,
             Fire 1 (Some readyVideo) True ''data:b'' 3500,
             Fire 1 (Some readyVideo) True ''data:c'' 6000,
             Fire 1 (Some readyVideo) True ''data:d'' 3600000] awaiting) = True
   \<and> fetchCalls
       (run [Settle 0 stalledResponse 1300,
             Fire 1 (Some readyVideo) True ''data:b'' 3500,
             Fire 1 (Some readyVideo) True ''data:c'' 6000,
             Fire 1 (Some readyVideo) True ''data:d'' 3600000] awaiting) = 1"
  by (simp add: run_def awaiting_eval sample_defs resume_defs abortAfter_def resp_ok_def
      streamingTick_def)

text \<open>
  Claim C2, as the code has it. The callback is resumed to its end exactly when the
  exchange completes, that is when the fetch is rejected or aborted by the 15 second
  timer, or the body read that follows a response settles. Whenever it is resumed, be it
  with an answer, a status outside 200..299, a network error or an abort, it ends with
  the in-flight flag cleared and its request no longer outstanding. An exchange that does
  not complete changes nothing; and while the flag is set and no exchange completes, the
  flag stays set and no tick sends a request.
\<close>

theorem flag_cleared_when_cycle_completes:
  "(streamingResume fr now s = None \<longleftrightarrow> \<not> cycleCompletes fr)
   \<and> (\<forall>s'. streamingResume fr now s = Some s' \<longrightarrow> frameInFlightRef s' = False)
   \<and> (i < length (pending s) \<longrightarrow> cycleCompletes fr \<longrightarrow>
        frameInFlightRef (step (Settle i fr now) s) = False
        \<and> pending (step (Settle i fr now) s) = take i (pending s) @ drop (Suc i) (pending s))
   \<and> (\<not> cycleCompletes fr \<longrightarrow> step (Settle i fr now) s = s)
   \<and> (frameInFlightRef t \<longrightarrow> list_all neverResumes evs \<longrightarrow>
        frameInFlightRef (run evs t) \<and> fetchCalls (run evs t) = fetchCalls t)"
proof -
  have d: "step (Settle i fr now) s = s" if "\<not> cycleCompletes fr"
  proof -
    from that have "streamingResume fr now u = None" for u
      by (simp add: resume_None_iff)
    then show ?thesis
      by simp
  qed
  have e: "frameInFlightRef (run evs t) \<and> fetchCalls (run evs t) = fetchCalls t"
    if "frameInFlightRef t" and "list_all neverResumes evs"
    using unresumed_run [OF that] by simp
  have a: "streamingResume fr now s = None \<longleftrightarrow> \<not> cycleCompletes fr"
    by (rule resume_None_iff)
  have b: "\<forall>s'. streamingResume fr now s = Some s' \<longrightarrow> frameInFlightRef s' = False"
    by (simp add: resume_clears_flag)
  have c: "frameInFlightRef (step (Settle i fr now) s) = False
        \<and> pending (step (Settle i fr now) s) = take i (pending s) @ drop (Suc i) (pending s)"
    if i: "i < length (pending s)" and cc: "cycleCompletes fr"
  proof -
    let ?t = "s\<lparr> pending := take i (pending s) @ drop (Suc i) (pending s) \<rparr>"
    from cc obtain t' where t': "streamingResume fr now ?t = Some t'"
      using resume_None_iff [of fr now ?t] by auto
    with i have "step (Settle i fr now) s = t'"
      by simp
    then show ?thesis
      using resume_clears_flag [OF t'] resume_fields(5) [OF t'] by simp
  qed
  show ?thesis
    using a b c d e by blast
qed

theorem flag_cleared_when_cycle_completes_witness:
  "frameInFlightRef awaiting = True
   \<and> frameInFlightRef (step (Settle 0 (answerResponse 800 ''dog'') 1800) awaiting) = False
   \<and> frameInFlightRef (step (Settle 0 overloadedResponse 1300) awaiting) = False
   \<and> frameInFlightRef (step (Settle 0 refusedFetch 1040) awaiting) = False
   \<and> frameInFlightRef (step (Settle 0 neverAnswered 16000) awaiting) = False
   \<and> pending (step (Settle 0 neverAnswered 16000) awaiting) = []
   \<and> step (Settle 0 stalledResponse 1300) awaiting = awaiting
   \<and> frameInFlightRef
       (run [Settle 0 stalledResponse 1300,
             Fire 1 (Some readyVideo) True ''data:b'' 3500] awaiting) = True
   \<and> fetchCalls
       (run [Settle 0 stalledResponse 1300,
             Fire 1 (Some readyVideo) True ''data:b'' 3500] awaiting) = 1"
proof -
  let ?evs = "[Settle 0 stalledResponse 1300, Fire 1 (Some readyVideo) True ''data:b'' 3500]"
  have a: "0 < length (pending awaiting)"
    by (simp add: awaiting_eval)
  have b: "cycleCompletes (answerResponse 800 ''dog'')" "cycleCompletes overloadedResponse"
    "cycleCompletes refusedFetch" "cycleCompletes neverAnswered"
    "\<not> cycleCompletes stalledResponse"
    by (simp_all add: cycleCompletes_def bodySettles_def fetchWithAbort_def abortAfter_def
        resp_ok_def sample_defs)
  have c: "pending awaiting = [hd (pending awaiting)]" "frameInFlightRef awaiting = True"
    "fetchCalls awaiting = 1"
    by (simp_all add: awaiting_eval)
  have d: "list_all neverResumes ?evs"
    using b(5) by simp
  have p1: "frameInFlightRef (step (Settle 0 (answerResponse 800 ''dog'') 1800) awaiting) = False"
    using flag_cleared_when_cycle_completes
      [where fr = "answerResponse 800 ''dog''" and now = 1800 and s = awaiting and i = 0
        and t = awaiting and evs = "[]"] a b(1)
    by blast
  have p2: "frameInFlightRef (step (Settle 0 overloadedResponse 1300) awaiting) = False"
    using flag_cleared_when_cycle_completes
      [where fr = overloadedResponse and now = 1300 and s = awaiting and i = 0
        and t = awaiting and evs = "[]"] a b(2)
    by blast
  have p3: "frameInFlightRef (step (Settle 0 refusedFetch 1040) awaiting) = False"
    using flag_cleared_when_cycle_completes
      [where fr = refusedFetch and now = 1040 and s = awaiting and i = 0
        and t = awaiting and evs = "[]"] a b(3)
    by blast
  have p4: "frameInFlightRef (step (Settle 0 neverAnswered 16000) awaiting) = False"
    "pending (step (Settle 0 neverAnswered 16000) awaiting) =
       take 0 (pending awaiting) @ drop (Suc 0) (pending awaiting)"
    using flag_cleared_when_cycle_completes
      [where fr = neverAnswered and now = 16000 and s = awaiting and i = 0
        and t = awaiting and evs = "[]"] a b(4)
    by blast+
  have p5: "step (Settle 0 stalledResponse 1300) awaiting = awaiting"
    "frameInFlightRef (run ?evs awaiting) = True"
    "fetchCalls (run ?evs awaiting) = fetchCalls awaiting"
    using flag_cleared_when_cycle_completes
      [where fr = stalledResponse and now = 1300 and s = awaiting and i = 0
        and t = awaiting and evs = ?evs] b(5) c(2) d
    by blast+
  have e: "take 0 (pending awaiting) @ drop (Suc 0) (pending awaiting) = []"
    by (simp add: awaiting_eval)
  show ?thesis
    unfolding p1 p2 p3 p4 p5 e c(2,3) by simp
qed

text \<open>
  Claim C5. A response with a truthy \<open>success\<close> and a truthy \<open>answer\<close> appends one entry
  and narrates once. When the answer is the string \<open>unanswerable\<close> or \<open>unsuitable\<close>, the
  entry's answer and the narrated answer are the string \<open>object\<close>; any other answer is
  stored and narrated as it came.
\<close>

theorem sentinel_answers_become_object:
  assumes "elapsed fr < abortAfter" and "settled fr = Inr resp" and "resp_ok resp"
    and "resp_json resp = Settled (Inr result)"
    and "truthy (fieldOf result ''success'')"
    and "fieldOf result ''answer'' = Some a" and "truthy (Some a)"
  shows "\<exists>s'. streamingResume fr now s = Some s'
         \<and> realTimeResults s' =
           appendResult (realTimeResults s)
             \<lparr> timestamp = now,
               answer = (if a = JStr ''unanswerable'' \<or> a = JStr ''unsuitable''
                         then JStr ''object'' else a),
               question = orElse (fieldOf result ''question'') (JStr defaultQuestion) \<rparr>
         \<and> spoken s' =
           spoken s @ [if a = JStr ''unanswerable'' \<or> a = JStr ''unsuitable''
                       then JStr ''object'' else a]"
  by (simp add: resume_success [OF assms])

theorem sentinel_answers_become_object_witness:
  "(\<exists>s'. streamingResume (answerResponse 800 ''unsuitable'') 1700 streaming = Some s'
      \<and> realTimeResults s' =
          [\<lparr> timestamp = 1700, answer = JStr ''object'',
             question = JStr ''what is in the picture'' \<rparr>]
      \<and> spoken s' = [JStr ''object''])
   \<and> (\<exists>s'. streamingResume (answerResponse 800 ''dog'') 1700 streaming = Some s'
      \<and> realTimeResults s' =
          [\<lparr> timestamp = 1700, answer = JStr ''dog'',
             question = JStr ''what is in the picture'' \<rparr>]
      \<and> spoken s' = [JStr ''dog''])"
proof -
  let ?r = "\<lambda>a. JObj [(''success'', JBool True), (''answer'', JStr a)]"
  let ?resp = "\<lambda>a. \<lparr> resp_status = 200, resp_text = Settled (Inr []),
                      resp_json = Settled (Inr (?r a)) \<rparr>"
  have a: "elapsed (answerResponse 800 x) < abortAfter" for x
    by (simp add: sample_defs abortAfter_def)
  have b: "settled (answerResponse 800 x) = Inr (?resp x)" for x
    by (simp add: sample_defs)
  have c: "resp_ok (?resp x)" for x
    by (simp add: resp_ok_def)
  have d: "resp_json (?resp x) = Settled (Inr (?r x))" for x
    by simp
  have e: "truthy (fieldOf (?r x) ''success'')" for x
    by (simp add: fieldOf_def)
  have f: "fieldOf (?r x) ''answer'' = Some (JStr x)" for x
    by (simp add: fieldOf_def)
  have g: "truthy (Some (JStr ''unsuitable''))" "truthy (Some (JStr ''dog''))"
    by simp_all
  have h: "realTimeResults streaming = []" "spoken streaming = []"
    by (simp_all add: streaming_eval)
  show ?thesis
    using sentinel_answers_become_object [OF a b c d e f g(1), of 1700 streaming]
      sentinel_answers_become_object [OF a b c d e f g(2), of 1700 streaming]
    by (simp add: h appendResult_def sliceLast_def orElse_def defaultQuestion_def fieldOf_def)
qed

text \<open>
  Claim C6 as stated fails. The abort timer is cleared as soon as the headers are in, so a
  request that does not resolve because its body never arrives is not aborted: 17.5
  seconds after it was sent nothing has changed, no message is shown, the flag is still
  set and the tick is skipped. A request whose body arrives after a minute is not aborted
  either: its answer is logged and no message is shown.
\<close>

theorem stalled_body_is_not_aborted:
  "fetchWithAbort stalledResponse =
     Inr \<lparr> resp_status = 200, resp_text = Never, resp_json = Never \<rparr>
   \<and> run [Settle 0 stalledResponse 1300,
           Fire 1 (Some readyVideo) True ''data:b'' 18500] awaiting = awaiting
   \<and> streamError awaiting = JStr []
   \<and> map req_timestamp (pending awaiting) = [1000]
   \<and> streamError (step (Settle 0 (answerResponse 300 ''dog'') 61000) awaiting) = JStr []
   \<and> map timestamp (realTimeResults
         (step (Settle 0 (answerResponse 300 ''dog'') 61000) awaiting)) = [61000]"
  by (simp add: run_def awaiting_eval sample_defs resume_defs abortAfter_def resp_ok_def
      streamingTick_def appendResult_def sliceLast_def)

text \<open>
  Claim C6, as the code has it. A request whose \<open>fetch\<close> promise has not settled after
  15 seconds is aborted. The message shown is then the timeout message; a fetch that fails
  without being aborted shows the message of its own error, or the generic network
  message when that is empty, and the two fixed messages differ. The flag is cleared, and
  the next tick on a ready camera sends a new request. A request whose \<open>fetch\<close> promise
  settles within 15 seconds is not aborted: what the callback goes on with is what the
  promise settled to.
\<close>

theorem timeout_is_reported_and_loop_continues:
  assumes "15000 < elapsed fr" and "i < length (pending s)"
    and "2 \<le> readyState v" and "0 < videoWidth v"
  shows "fetchWithAbort fr = Inl (JsError ''AbortError'' ''signal is aborted without reason'')
       \<and> streamError (step (Settle i fr now) s) = JStr timeoutMessage
       \<and> frameInFlightRef (step (Settle i fr now) s) = False
       \<and> pending (streamingTick url (Some v) True jpegDataUrl later (step (Settle i fr now) s)) =
           pending (step (Settle i fr now) s) @
             [\<lparr> req_url = url @ ''/analyze/frame'', req_data = jpegDataUrl,
                req_timestamp = later, req_question = ''what is in the picture'' \<rparr>]
       \<and> fetchCalls (streamingTick url (Some v) True jpegDataUrl later
                       (step (Settle i fr now) s)) = Suc (fetchCalls s)
       \<and> (elapsed other < abortAfter \<longrightarrow> settled other = Inl err \<longrightarrow>
            err_name err \<noteq> ''AbortError'' \<longrightarrow>
            streamError (step (Settle i other now) s) =
              JStr (if err_message err = [] then networkMessage else err_message err))
       \<and> timeoutMessage \<noteq> networkMessage
       \<and> (elapsed other < abortAfter \<longrightarrow> fetchWithAbort other = settled other)"
proof -
  let ?t = "s\<lparr> pending := take i (pending s) @ drop (Suc i) (pending s) \<rparr>"
  have ab: "fetchWithAbort fr = Inl (JsError ''AbortError'' ''signal is aborted without reason'')"
    using assms(1) by (simp add: fetchWithAbort_def abortAfter_def)
  have st: "step (Settle i fr now) s =
            (catchBlock (JsError ''AbortError'' ''signal is aborted without reason'') ?t)
              \<lparr> frameInFlightRef := False \<rparr>"
    using assms(2) resume_rejected [OF ab, of now ?t] by simp
  have other: "streamError (step (Settle i other now) s) =
              JStr (if err_message err = [] then networkMessage else err_message err)"
    if "elapsed other < abortAfter" and "settled other = Inl err"
      and "err_name err \<noteq> ''AbortError''"
  proof -
    have "fetchWithAbort other = Inl err"
      using that by (simp add: fetchWithAbort_def)
    from resume_rejected [OF this, of now ?t] assms(2) that(3) show ?thesis
      by (simp add: catchBlock_def)
  qed
  have msg: "timeoutMessage \<noteq> networkMessage"
    by (simp add: timeoutMessage_def networkMessage_def)
  have kept: "elapsed other < abortAfter \<longrightarrow> fetchWithAbort other = settled other"
    by (simp add: fetchWithAbort_def)
  show ?thesis
    using ab other msg kept assms(3,4)
    by (simp add: st catchBlock_def streamingTick_def del: step.simps)
qed

theorem timeout_is_reported_and_loop_continues_witness:
  "streamError (step (Settle 0 neverAnswered 16000) awaiting)
      = JStr ''Request timed out. Backend may be busy.''
   \<and> frameInFlightRef (step (Settle 0 neverAnswered 16000) awaiting) = False
   \<and> pending (step (Fire 1 (Some readyVideo) True ''data:b'' 17000)
                 (step (Settle 0 neverAnswered 16000) awaiting)) =
       [\<lparr> req_url = ''http://localhost:5000/analyze/frame'', req_data = ''data:b'',
          req_timestamp = 17000, req_question = ''what is in the picture'' \<rparr>]
   \<and> streamError (step (Settle 0 refusedFetch 16000) awaiting) = JStr ''Failed to fetch''
   \<and> streamError (step (Settle 0 \<lparr> elapsed = 40, settled = Inl (JsError ''TypeError'' []) \<rparr>
                           16000) awaiting) = JStr networkMessage"
proof -
  have a: "15000 < elapsed neverAnswered"
    by (simp add: sample_defs)
  have b: "0 < length (pending awaiting)"
    by (simp add: awaiting_eval)
  have c: "2 \<le> readyState readyVideo" "0 < videoWidth readyVideo"
    by (simp_all add: sample_defs)
  show ?thesis
    using timeout_is_reported_and_loop_continues
            [OF a b c, of 16000 localUrl "''data:b''" 17000 refusedFetch
               "JsError ''TypeError'' ''Failed to fetch''"]
      timeout_is_reported_and_loop_continues
            [OF a b c, of 16000 localUrl "''data:b''" 17000
               "\<lparr> elapsed = 40, settled = Inl (JsError ''TypeError'' []) \<rparr>"
               "JsError ''TypeError'' []"]
    by (simp add: awaiting_eval streamingTick_def timeoutMessage_def sample_defs
        resume_defs abortAfter_def)
qed

text \<open>
  Claim C8 as stated fails. When the body of a response with status 500 breaks off while
  \<open>response.text()\<close> reads it, the \<open>catch\<close> block shows the message of that failure,
  which holds neither the status nor any part of the body.
\<close>

theorem broken_body_hides_status:
  "streamError (step (Settle 0 brokenBodyResponse 1300) awaiting) = JStr ''network error''"
  by (simp add: awaiting_eval sample_defs resume_defs abortAfter_def resp_ok_def)

text \<open>
  Claim C8, as the code has it. For a response whose status is outside 200..299: when
  \<open>response.text()\<close> yields the body, the message shown is \<open>HTTP\<close>, the status, and the
  first 120 characters of the body; when it fails, the message is the one the \<open>catch\<close>
  block shows for that failure, without the status. In both cases nothing is logged and
  nothing is narrated. While the body does not arrive, the callback is not resumed.
\<close>

theorem http_error_shows_status_and_body_prefix:
  assumes "elapsed fr < abortAfter" and "settled fr = Inr resp" and "\<not> resp_ok resp"
  shows "case resp_text resp of
           Never \<Rightarrow> streamingResume fr now s = None
         | Settled body \<Rightarrow>
             (\<exists>s'. streamingResume fr now s = Some s'
                \<and> streamError s' =
                    (case body of
                       Inr text \<Rightarrow>
                         JStr (''HTTP '' @ showNat (resp_status resp) @ '': '' @ take 120 text)
                     | Inl err \<Rightarrow>
                         JStr (if err_name err = ''AbortError'' then timeoutMessage
                               else if err_message err = [] then networkMessage
                               else err_message err))
                \<and> realTimeResults s' = realTimeResults s
                \<and> spoken s' = spoken s)"
proof (cases "resp_text resp")
  case Never
  with assms show ?thesis
    by (simp add: resume_defs)
next
  case (Settled body)
  with assms show ?thesis
    by (cases body) (simp_all add: resume_defs)
qed

theorem http_error_shows_status_and_body_prefix_witness:
  "(\<exists>s'. streamingResume overloadedResponse 1300 awaiting = Some s'
      \<and> streamError s' = JStr ''HTTP 500: {\"error\":\"model overloaded\"}''
      \<and> realTimeResults s' = [] \<and> spoken s' = [])
   \<and> (\<exists>s'. streamingResume brokenBodyResponse 1300 awaiting = Some s'
      \<and> streamError s' = JStr ''network error''
      \<and> realTimeResults s' = [] \<and> spoken s' = [])"
proof -
  let ?resp = "\<lparr> resp_status = 500,
                 resp_text = Settled (Inr ''{\"error\":\"model overloaded\"}''),
                 resp_json = Settled (Inr (JObj [(''error'', JStr ''model overloaded'')])) \<rparr>"
  let ?broken = "\<lparr> resp_status = 500,
                   resp_text = Settled (Inl (JsError ''TypeError'' ''network error'')),
                   resp_json = Settled (Inl (JsError ''TypeError'' ''network error'')) \<rparr>"
  have a: "elapsed overloadedResponse < abortAfter" "elapsed brokenBodyResponse < abortAfter"
    by (simp_all add: sample_defs abortAfter_def)
  have b: "settled overloadedResponse = Inr ?resp" "settled brokenBodyResponse = Inr ?broken"
    by (simp_all add: sample_defs)
  have c: "\<not> resp_ok ?resp" "\<not> resp_ok ?broken"
    by (simp_all add: resp_ok_def)
  have e: "showNat 500 = ''500''"
    by (simp add: showNat.simps)
  have f: "realTimeResults awaiting = []" "spoken awaiting = []"
    by (simp_all add: awaiting_eval)
  show ?thesis
    using http_error_shows_status_and_body_prefix [OF a(1) b(1) c(1), of 1300 awaiting]
      http_error_shows_status_and_body_prefix [OF a(2) b(2) c(2), of 1300 awaiting]
    by (simp add: e f)
qed

text \<open>
  Claim C10, as the code has it. When the body parses to a value in which \<open>success\<close> or
  \<open>answer\<close> is not truthy, nothing is logged and nothing is narrated. Unless that value
  is \<open>null\<close>, the message shown is the truthy \<open>error\<close> field if there is one and
  otherwise stays what it was, so the tick is dropped silently.
\<close>

theorem answerless_response_is_dropped:
  assumes "elapsed fr < abortAfter" and "settled fr = Inr resp" and "resp_ok resp"
    and "resp_json resp = Settled (Inr result)"
    and "\<not> (truthy (fieldOf result ''success'') \<and> truthy (fieldOf result ''answer''))"
  shows "\<exists>s'. streamingResume fr now s = Some s'
         \<and> realTimeResults s' = realTimeResults s
         \<and> spoken s' = spoken s
         \<and> (result \<noteq> JNull \<longrightarrow>
              streamError s' =
                (case fieldOf result ''error'' of
                   None \<Rightarrow> streamError s
                 | Some e \<Rightarrow> if truthy (Some e) then e else streamError s))"
proof (cases "result = JNull")
  case True
  with assms show ?thesis
    by (simp add: resume_defs)
next
  case False
  with assms show ?thesis
    using getProp_fieldOf [OF False]
    by (auto simp add: resume_defs split: option.splits)
qed

theorem answerless_response_is_dropped_witness:
  "(\<exists>s'. streamingResume (jsonResponse 800 (JObj [(''success'', JBool False)])) 1800 awaiting
            = Some s'
      \<and> realTimeResults s' = [] \<and> spoken s' = [] \<and> streamError s' = JStr [])
   \<and> (\<exists>s'. streamingResume (jsonResponse 800 JNull) 1800 awaiting = Some s'
      \<and> realTimeResults s' = [] \<and> spoken s' = [])"
proof -
  let ?resp = "\<lambda>r. \<lparr> resp_status = 200, resp_text = Settled (Inr []),
                      resp_json = Settled (Inr r) \<rparr>"
  have a: "elapsed (jsonResponse 800 r) < abortAfter" for r
    by (simp add: sample_defs abortAfter_def)
  have b: "settled (jsonResponse 800 r) = Inr (?resp r)" for r
    by (simp add: sample_defs)
  have c: "resp_ok (?resp r)" for r
    by (simp add: resp_ok_def)
  have d: "resp_json (?resp r) = Settled (Inr r)" for r
    by simp
  have e: "\<not> (truthy (fieldOf (JObj [(''success'', JBool False)]) ''success'')
              \<and> truthy (fieldOf (JObj [(''success'', JBool False)]) ''answer''))"
    "\<not> (truthy (fieldOf JNull ''success'') \<and> truthy (fieldOf JNull ''answer''))"
    by (simp_all add: fieldOf_def)
  have f: "realTimeResults awaiting = []" "spoken awaiting = []"
    "streamError awaiting = JStr []"
    by (simp_all add: awaiting_eval)
  show ?thesis
    using answerless_response_is_dropped [OF a b c d e(1), of 1800 awaiting]
      answerless_response_is_dropped [OF a b c d e(2), of 1800 awaiting]
    by (simp add: f fieldOf_def)
qed

text \<open>
  Claim C10 as stated fails when the body is the JSON value \<open>null\<close>: it parses, it has
  no truthy \<open>success\<close> and no \<open>error\<close> property, yet reading \<open>result.success\<close> throws
  and the \<open>catch\<close> block shows the message of the \<open>TypeError\<close>.
\<close>

theorem null_body_shows_an_error:
  "streamError awaiting = JStr []
   \<and> streamError (step (Settle 0 (jsonResponse 800 JNull) 1800) awaiting) =
       JStr (''Cannot read properties of null (reading '' @ quote @ ''success'' @ quote @ '')'')"
  by (simp add: awaiting_eval sample_defs resume_defs abortAfter_def resp_ok_def)

subsection \<open>Ticks and the start of the loop\<close>

text \<open>
  Claim C9. A tick that finds no video element, a \<open>readyState\<close> below 2 or a zero
  \<open>videoWidth\<close> leaves the whole state as it is: no request is added, the error message
  and the in-flight flag are untouched, and the timer stays registered.
\<close>

theorem unready_tick_changes_nothing:
  assumes "map_of (intervals s) h = Some (StreamingCallback url)"
    and "case videoEl of None \<Rightarrow> True | Some v \<Rightarrow> readyState v < 2 \<or> videoWidth v = 0"
  shows "step (Fire h videoEl ctx jpegDataUrl now) s = s"
  using assms by (auto simp add: streamingTick_def split: option.splits)

theorem unready_tick_changes_nothing_witness:
  "step (Fire 1 (Some coldVideo) True ''data:a'' 1000) streaming = streaming
   \<and> map_of (intervals streaming) 1 = Some (StreamingCallback localUrl)
   \<and> pending streaming = [] \<and> streamError streaming = JStr []
   \<and> frameInFlightRef streaming = False"
proof -
  have a: "map_of (intervals streaming) 1 = Some (StreamingCallback localUrl)"
    by (simp add: streaming_eval)
  have b: "case Some coldVideo of None \<Rightarrow> True
           | Some v \<Rightarrow> readyState v < 2 \<or> videoWidth v = 0"
    by (simp add: sample_defs)
  show ?thesis
    using unready_tick_changes_nothing [OF a b, of True "''data:a''" 1000] a
    by (simp add: streaming_eval)
qed

text \<open>
  Claim C7 as stated fails. With a video element that is present but has delivered no
  data yet (\<open>readyState\<close> 0, width 0), \<open>startFrameStreaming\<close> registers the timer all the
  same. Its only caller, \<open>startRecording\<close>, does stop before it when the source is not
  ready, but not silently: it shows an alert.
\<close>

theorem unready_source_still_starts_timer:
  "streamingIntervalRef (startFrameStreaming (Some coldVideo) (init localUrl)) = Some 1
   \<and> intervals (startFrameStreaming (Some coldVideo) (init localUrl)) =
       [(1, StreamingCallback localUrl)]
   \<and> intervals (startRecording (Some coldVideo) None None (startCamera None (init localUrl))) = []
   \<and> alerts (startRecording (Some coldVideo) None None (startCamera None (init localUrl))) =
       [warnsign @ '' Camera is still starting. Please wait a second and try again.'']"
  by (simp add: init_def handler_defs sample_defs)

text \<open>
  Claim C7, as the code has it. \<open>startFrameStreaming\<close> does nothing at all exactly when
  there is no video element or the API URL is empty; it does not look at the readiness
  of the element, which every tick tests instead. \<open>startRecording\<close> does look at it:
  with a source that is not ready it begins no timer and changes nothing but the list of
  alerts shown.
\<close>

theorem start_is_guarded_by_element_and_url:
  assumes "case videoEl of None \<Rightarrow> True | Some v \<Rightarrow> readyState v < 2 \<or> videoWidth v = 0"
  shows "(startFrameStreaming videoEl s = s \<longleftrightarrow> videoEl = None \<or> apiUrl s = [])
       \<and> (startFrameStreaming (Some ready) s = s \<longleftrightarrow> apiUrl s = [])
       \<and> startRecording videoEl newThrows startThrows s =
           s\<lparr> alerts := alerts s @
               [if mediaStream s
                then warnsign @ '' Camera is still starting. Please wait a second and try again.''
                else warnsign @ '' Please start camera first''] \<rparr>"
proof -
  have noop: "startFrameStreaming v s = s \<longleftrightarrow> v = None \<or> apiUrl s = []" for v
  proof
    assume eq: "startFrameStreaming v s = s"
    show "v = None \<or> apiUrl s = []"
    proof (rule ccontr)
      assume "\<not> (v = None \<or> apiUrl s = [])"
      then have "nextHandle (startFrameStreaming v s) = Suc (nextHandle s)"
        by (simp add: startFrameStreaming_def setInterval_def clearInterval_def Let_def
            split: option.splits)
      with eq show False by simp
    qed
  next
    assume "v = None \<or> apiUrl s = []"
    then show "startFrameStreaming v s = s"
      by (auto simp add: startFrameStreaming_def)
  qed
  have rec: "startRecording videoEl newThrows startThrows s =
           s\<lparr> alerts := alerts s @
               [if mediaStream s
                then warnsign @ '' Camera is still starting. Please wait a second and try again.''
                else warnsign @ '' Please start camera first''] \<rparr>"
    using assms by (simp add: startRecording_def alert_def)
  show ?thesis
    using noop [of videoEl] noop [of "Some ready"] rec by simp
qed

theorem start_is_guarded_by_element_and_url_witness:
  "startFrameStreaming None (init localUrl) = init localUrl
   \<and> startFrameStreaming (Some readyVideo) (init []) = init []
   \<and> startFrameStreaming (Some coldVideo) (init localUrl) \<noteq> init localUrl
   \<and> intervals (startRecording (Some coldVideo) None None (init localUrl)) = []
   \<and> alerts (startRecording (Some coldVideo) None None (init localUrl)) =
       [warnsign @ '' Please start camera first'']"
proof -
  have a: "case Some coldVideo of None \<Rightarrow> True
           | Some v \<Rightarrow> readyState v < 2 \<or> videoWidth v = 0"
    by (simp add: sample_defs)
  have b: "case None of None \<Rightarrow> True
           | Some v \<Rightarrow> readyState v < 2 \<or> videoWidth v = 0"
    by simp
  show ?thesis
    using start_is_guarded_by_element_and_url [OF a, of "init localUrl" readyVideo None None]
      start_is_guarded_by_element_and_url [OF b, of "init localUrl" readyVideo None None]
      start_is_guarded_by_element_and_url [OF b, of "init []" readyVideo None None]
    by (simp add: init_def sample_defs)
qed

subsection \<open>The result log\<close>







lemma stopRecording_total:
  "stopRecording rd s = Inr (step (StopRecording rd) s)"
  by (simp add: stopRecording_def bindE_def tryIgnore_def Let_def split: option.splits)

lemma stopRecording_fields:
  "realTimeResults (step (StopRecording rd) s) = realTimeResults s
   \<and> pending (step (StopRecording rd) s) = pending s
   \<and> spoken (step (StopRecording rd) s) = spoken s
   \<and> streamError (step (StopRecording rd) s) = streamError s
   \<and> fetchCalls (step (StopRecording rd) s) = fetchCalls s"
  by (simp add: stopRecording_def bindE_def tryIgnore_def clearInterval_def Let_def
      split: option.splits)











subsection \<open>Timers, and what a stop leaves behind\<close>

lemma map_of_streaming:
  "map_of (intervals s) h = Some (StreamingCallback url) \<Longrightarrow> h \<in> set (streamingTimers s)"
  by (force simp: streamingTimers_def dest: map_of_SomeD)

lemma streamingTimers_clear:
  "streamingTimers (clearInterval h s) = filter (\<lambda>k. k \<noteq> h) (streamingTimers s)"
  by (simp add: streamingTimers_def clearInterval_def filter_map o_def conj_commute)

lemma streamingTimers_cong:
  "intervals s' = intervals s \<Longrightarrow> streamingTimers s' = streamingTimers s"
  by (simp add: streamingTimers_def)

lemma tracked_clear_ref:
  assumes "tracked s" and "streamingIntervalRef s = Some h"
  shows "streamingTimers (clearInterval h s) = []"
proof -
  have "\<forall>k \<in> set (streamingTimers s). k = h"
    using assms by (auto simp: tracked_def)
  then show ?thesis
    by (simp add: streamingTimers_clear filter_empty_conv)
qed

lemma tracked_no_ref:
  assumes "tracked s" and "streamingIntervalRef s = None"
  shows "streamingTimers s = []"
  using assms by (cases "streamingTimers s") (auto simp: tracked_def)

lemma tracked_quiet:
  "streamingTimers s = [] \<Longrightarrow> streamingIntervalRef s = None \<Longrightarrow> tracked s"
  by (simp add: tracked_def)

lemma tracked_init: "tracked (init url)"
  by (simp add: tracked_def init_def streamingTimers_def)

lemma tick_intervals:
  "intervals (streamingTick url v c d now s) = intervals s
   \<and> streamingIntervalRef (streamingTick url v c d now s) = streamingIntervalRef s
   \<and> isRecording (streamingTick url v c d now s) = isRecording s
   \<and> mediaRecorderRef (streamingTick url v c d now s) = mediaRecorderRef s"
  by (simp add: streamingTick_def Let_def split: option.splits)

lemma streamingTimers_startFrameStreaming:
  assumes "tracked s"
  shows "streamingTimers (startFrameStreaming v s) =
           (if v = None \<or> apiUrl s = [] then streamingTimers s else [nextHandle s])
         \<and> streamingIntervalRef (startFrameStreaming v s) =
           (if v = None \<or> apiUrl s = [] then streamingIntervalRef s
            else Some (nextHandle s))
         \<and> isRecording (startFrameStreaming v s) = isRecording s
         \<and> mediaRecorderRef (startFrameStreaming v s) = mediaRecorderRef s"
proof (cases "streamingIntervalRef s")
  case None
  with assms have "streamingTimers s = []"
    by (rule tracked_no_ref)
  then have "filter (\<lambda>p. snd p \<noteq> RecordingCallback) (intervals s) = []"
    by (simp add: streamingTimers_def)
  with None show ?thesis
    by (simp add: startFrameStreaming_def setInterval_def Let_def streamingTimers_def)
next
  case (Some h)
  with assms have "streamingTimers (clearInterval h s) = []"
    by (rule tracked_clear_ref)
  then have "filter (\<lambda>p. snd p \<noteq> RecordingCallback)
               (filter (\<lambda>p. fst p \<noteq> h) (intervals s)) = []"
    by (simp add: streamingTimers_def clearInterval_def)
  with Some show ?thesis
    by (simp add: startFrameStreaming_def setInterval_def Let_def streamingTimers_def
        clearInterval_def)
qed

lemma tracked_startRecording:
  assumes "tracked s"
  shows "tracked (startRecording v n st s)"
proof -
  have a: "tracked (s\<lparr> mediaRecorderRef := True \<rparr>)"
    using assms by (auto simp: tracked_def streamingTimers_def)
  let ?s2 = "s\<lparr> mediaRecorderRef := True, isRecording := True, isStreaming := True,
                recordingTime := 0, realTimeResults := [], streamError := JStr [] \<rparr>"
  have b: "tracked ?s2"
    using assms by (auto simp: tracked_def streamingTimers_def)
  have c: "tracked ((startFrameStreaming v ?s2)
             \<lparr> intervals := intervals (startFrameStreaming v ?s2) @ [(k, RecordingCallback)],
               nextHandle := m, recordingIntervalRef := r \<rparr>)" for k m r
    using streamingTimers_startFrameStreaming [OF b, of v] b
    by (auto simp: tracked_def streamingTimers_def)
  show ?thesis
    using assms a c
    by (auto simp: startRecording_def alert_def recordingFailed_def setInterval_def Let_def
        tracked_def streamingTimers_def split: option.splits)
qed

lemma streamingTimers_stopRecording:
  assumes "tracked s"
  shows "streamingTimers (step (StopRecording rd) s) = []"
proof (cases "mediaRecorderRef s \<and> isRecording s")
  case False
  with assms have "streamingIntervalRef s = None"
    by (auto simp: tracked_def)
  with assms have "streamingTimers s = []"
    by (rule tracked_no_ref)
  with False show ?thesis
    by (auto simp: stopRecording_def)
next
  case True
  let ?s2 = "case recordingIntervalRef s of
               None \<Rightarrow> s\<lparr> isRecording := False, isStreaming := False \<rparr>
             | Some h \<Rightarrow> (clearInterval h (s\<lparr> isRecording := False, isStreaming := False \<rparr>))
                           \<lparr> recordingIntervalRef := None \<rparr>"
  have ref: "streamingIntervalRef ?s2 = streamingIntervalRef s"
    by (simp add: clearInterval_def split: option.splits)
  have sub: "set (streamingTimers ?s2) \<subseteq> set (streamingTimers s)"
    by (auto simp: streamingTimers_def clearInterval_def split: option.splits)
  show ?thesis
  proof (cases "streamingIntervalRef s")
    case None
    with assms have "streamingTimers s = []"
      by (rule tracked_no_ref)
    with sub have "streamingTimers ?s2 = []"
      by simp
    with None ref True show ?thesis
      by (simp add: stopRecording_def bindE_def tryIgnore_def Let_def streamingTimers_def
          split: option.splits)
  next
    case (Some h)
    have "\<forall>k \<in> set (streamingTimers s). k = h"
      using assms Some by (auto simp: tracked_def)
    with sub have "\<forall>k \<in> set (streamingTimers ?s2). k = h"
      by blast
    then have "streamingTimers (clearInterval h ?s2) = []"
      by (simp add: streamingTimers_clear filter_empty_conv)
    with Some ref True show ?thesis
      by (simp add: stopRecording_def bindE_def tryIgnore_def Let_def streamingTimers_def
          clearInterval_def split: option.splits)
  qed
qed

lemma stopRecording_ref:
  "tracked s \<Longrightarrow> streamingIntervalRef (step (StopRecording rd) s) = None"
  by (auto simp: stopRecording_def bindE_def tryIgnore_def clearInterval_def Let_def
      tracked_def split: option.splits)

lemma tracked_stopRecording: "tracked s \<Longrightarrow> tracked (step (StopRecording rd) s)"
  by (rule tracked_quiet [OF streamingTimers_stopRecording stopRecording_ref])

lemma quiet_clear_recording:
  assumes "streamingTimers t = []" and "streamingIntervalRef t = None"
  shows "streamingTimers (case recordingIntervalRef t of None \<Rightarrow> t
           | Some h \<Rightarrow> (clearInterval h t)\<lparr> recordingIntervalRef := None \<rparr>) = []
       \<and> streamingIntervalRef (case recordingIntervalRef t of None \<Rightarrow> t
           | Some h \<Rightarrow> (clearInterval h t)\<lparr> recordingIntervalRef := None \<rparr>) = None"
proof (cases "recordingIntervalRef t")
  case None
  with assms show ?thesis by simp
next
  case (Some h)
  have "streamingTimers ((clearInterval h t)\<lparr> recordingIntervalRef := None \<rparr>) =
        streamingTimers (clearInterval h t)"
    by (rule streamingTimers_cong) simp
  with assms Some show ?thesis
    by (simp add: streamingTimers_clear) (simp add: clearInterval_def)
qed

lemma streamingTimers_stopCamera:
  assumes "tracked s"
  shows "streamingTimers (stopCamera s) = [] \<and> streamingIntervalRef (stopCamera s) = None"
proof -
  let ?s1 = "if mediaStream s then s\<lparr> mediaStream := False, isCameraActive := False \<rparr> else s"
  have t1: "tracked ?s1"
    using assms by (simp add: tracked_def streamingTimers_def)
  let ?s2 = "case streamingIntervalRef ?s1 of None \<Rightarrow> ?s1
             | Some h \<Rightarrow> (clearInterval h ?s1)\<lparr> streamingIntervalRef := None \<rparr>"
  have q2: "streamingTimers ?s2 = [] \<and> streamingIntervalRef ?s2 = None"
  proof (cases "streamingIntervalRef ?s1")
    case None
    with t1 show ?thesis
      using tracked_no_ref [OF t1] by simp
  next
    case (Some h)
    with t1 have "streamingTimers (clearInterval h ?s1) = []"
      by (rule tracked_clear_ref)
    with Some show ?thesis
      by (simp add: streamingTimers_def)
  qed
  let ?s3 = "?s2\<lparr> frameInFlightRef := False, isRecording := False, isStreaming := False,
                  recordingTime := 0 \<rparr>"
  have q3: "streamingTimers ?s3 = [] \<and> streamingIntervalRef ?s3 = None"
    using q2 by (simp add: streamingTimers_def)
  have "stopCamera s = (case recordingIntervalRef ?s3 of None \<Rightarrow> ?s3
          | Some h \<Rightarrow> (clearInterval h ?s3)\<lparr> recordingIntervalRef := None \<rparr>)"
    by (simp add: stopCamera_def Let_def)
  then show ?thesis
    using quiet_clear_recording [of ?s3] q3 by presburger
qed

lemma stopCamera_fetchCalls: "fetchCalls (stopCamera s) = fetchCalls s"
  by (simp add: stopCamera_def clearInterval_def Let_def split: option.splits)

lemma tracked_step:
  assumes "tracked s"
  shows "tracked (step e s)"
proof (cases e)
  case (StartCamera d)
  with assms show ?thesis
    by (auto simp: startCamera_def alert_def tracked_def streamingTimers_def
        split: option.splits)
next
  case (StartRecording v n st)
  with assms show ?thesis
    by (simp add: tracked_startRecording)
next
  case (StopRecording rd)
  with assms show ?thesis
    using tracked_stopRecording [of s rd] by (simp del: step.simps)
next
  case StopCamera
  with assms show ?thesis
    by (simp add: tracked_quiet streamingTimers_stopCamera)
next
  case (Fire h v c d now)
  with assms show ?thesis
    using tick_intervals
    by (auto simp: tracked_def streamingTimers_def split: option.splits callback.splits)
next
  case (Settle i fr now)
  let ?t = "s\<lparr> pending := take i (pending s) @ drop (Suc i) (pending s) \<rparr>"
  have "tracked t'" if "streamingResume fr now ?t = Some t'" for t'
    using resume_fields(1,2,3,4) [OF that] assms
    by (simp add: tracked_def streamingTimers_def)
  with Settle assms show ?thesis
    by (simp split: option.splits)
qed

lemma tracked_run: "tracked s \<Longrightarrow> tracked (run evs s)"
  unfolding run_def by (induction evs arbitrary: s) (simp_all add: tracked_step)

text \<open>
  Once no streaming timer is live, no event but a new start of the recording brings one
  back, and none sends a request.
\<close>

lemma idle_step:
  assumes "streamingTimers s = []" and "streamingIntervalRef s = None"
    and "\<not> isStartRecording e"
  shows "streamingTimers (step e s) = [] \<and> streamingIntervalRef (step e s) = None
         \<and> fetchCalls (step e s) = fetchCalls s"
proof -
  have t: "tracked s"
    using assms(1,2) by (rule tracked_quiet)
  show ?thesis
  proof (cases e)
    case (StartCamera d)
    with assms show ?thesis
      by (auto simp: startCamera_def alert_def streamingTimers_def split: option.splits)
  next
    case (StartRecording v n st)
    with assms show ?thesis
      by simp
  next
    case (StopRecording rd)
    show ?thesis
      unfolding StopRecording
      using streamingTimers_stopRecording [OF t, of rd] stopRecording_ref [OF t, of rd]
        stopRecording_fields [of rd s]
      by (simp del: step.simps)
  next
    case StopCamera
    with streamingTimers_stopCamera [OF t] show ?thesis
      by (simp add: stopCamera_fetchCalls)
  next
    case (Fire h v c d now)
    have "map_of (intervals s) h \<noteq> Some (StreamingCallback url)" for url
      using map_of_streaming [of s h url] assms(1) by auto
    with Fire assms show ?thesis
      by (auto simp: streamingTimers_def split: option.splits callback.splits)
  next
    case (Settle i fr now)
    let ?t = "s\<lparr> pending := take i (pending s) @ drop (Suc i) (pending s) \<rparr>"
    have "streamingTimers t' = [] \<and> streamingIntervalRef t' = None
          \<and> fetchCalls t' = fetchCalls s" if "streamingResume fr now ?t = Some t'" for t'
      using resume_fields(1,2,6) [OF that] assms(1,2)
      by (simp add: streamingTimers_def)
    with Settle assms show ?thesis
      by (simp split: option.splits)
  qed
qed

lemma idle_run:
  assumes "streamingTimers s = []" and "streamingIntervalRef s = None"
    and "list_all (\<lambda>e. \<not> isStartRecording e) evs"
  shows "fetchCalls (run evs s) = fetchCalls s"
  using assms
proof (induction evs arbitrary: s)
  case Nil
  then show ?case
    by (simp add: run_def)
next
  case (Cons e evs)
  from Cons.prems have ne: "\<not> isStartRecording e"
    and rest: "list_all (\<lambda>e. \<not> isStartRecording e) evs"
    by simp_all
  note st = idle_step [OF Cons.prems(1,2) ne]
  from st have st1: "streamingTimers (step e s) = []"
    and st2: "streamingIntervalRef (step e s) = None"
    by simp_all
  have "fetchCalls (run evs (step e s)) = fetchCalls (step e s)"
    by (rule Cons.IH [OF st1 st2 rest])
  moreover have "run (e # evs) s = run evs (step e s)"
    by (simp add: run_def)
  ultimately show ?case
    using st by simp
qed

text \<open>
  Settling a request does to the log, the narration and the message of a stopped
  recording what it would have done without the stop.
\<close>

lemma late_settle_same_outcome:
  assumes "realTimeResults t = realTimeResults s" and "spoken t = spoken s"
    and "streamError t = streamError s" and "pending t = pending s"
  shows "realTimeResults (step (Settle i fr now) t) = realTimeResults (step (Settle i fr now) s)
       \<and> spoken (step (Settle i fr now) t) = spoken (step (Settle i fr now) s)
       \<and> streamError (step (Settle i fr now) t) = streamError (step (Settle i fr now) s)"
proof (cases "i < length (pending s)")
  case False
  with assms show ?thesis
    by simp
next
  case True
  let ?p = "take i (pending s) @ drop (Suc i) (pending s)"
  have v: "realTimeResults (t\<lparr> pending := ?p \<rparr>) = realTimeResults (s\<lparr> pending := ?p \<rparr>)"
    "spoken (t\<lparr> pending := ?p \<rparr>) = spoken (s\<lparr> pending := ?p \<rparr>)"
    "streamError (t\<lparr> pending := ?p \<rparr>) = streamError (s\<lparr> pending := ?p \<rparr>)"
    using assms by simp_all
  show ?thesis
  proof (cases "streamingResume fr now (s\<lparr> pending := ?p \<rparr>)")
    case None
    then have "streamingResume fr now (t\<lparr> pending := ?p \<rparr>) = None"
      using resume_same_outcome [OF v, of fr now] by simp
    with None True assms show ?thesis
      by simp
  next
    case (Some s')
    then obtain t' where "streamingResume fr now (t\<lparr> pending := ?p \<rparr>) = Some t'"
      and "realTimeResults t' = realTimeResults s'" and "spoken t' = spoken s'"
      and "streamError t' = streamError s'"
      using resume_same_outcome [OF v, of fr now] by auto
    with Some True assms show ?thesis
      by simp
  qed
qed

text \<open>
  Claim C3 as stated fails: the request that is outstanding when \<open>stopRecording\<close> runs is
  not cancelled, and when it brings an answer after the stop, its entry is appended to
  the log and the answer is narrated.
\<close>

theorem answer_after_stop_is_logged:
  "realTimeResults (step (StopRecording None) awaiting) = []
   \<and> realTimeResults
       (step (Settle 0 (answerResponse 800 ''dog'') 1800) (step (StopRecording None) awaiting)) =
     [\<lparr> timestamp = 1800, answer = JStr ''dog'', question = JStr ''what is in the picture'' \<rparr>]
   \<and> spoken
       (step (Settle 0 (answerResponse 800 ''dog'') 1800) (step (StopRecording None) awaiting)) =
     [JStr ''dog'']"
  by (simp add: awaiting_eval handler_defs sample_defs resume_defs abortAfter_def resp_ok_def
      appendResult_def sliceLast_def orElse_def defaultQuestion_def)

text \<open>
  Claim C3, as the code has it. In any state the component can reach with a request
  outstanding, \<open>stopRecording\<close> does not throw, and it changes neither the log, the
  narration, the message nor the outstanding requests. From then on \<open>fetch\<close> is not called
  again until a recording is started. The outstanding request is not abandoned: whatever
  it settles to, the log, the narration and the message afterwards are what they would be
  had the recording not been stopped; in particular an answer is appended to the log and
  narrated.
\<close>

theorem stopRecording_does_not_cancel_request:
  assumes "s = run evs (init url)" and "s' = step (StopRecording rd) s"
    and "i < length (pending s)"
    and "list_all (\<lambda>e. \<not> isStartRecording e) later"
  shows "stopRecording rd s = Inr s'
       \<and> realTimeResults s' = realTimeResults s \<and> spoken s' = spoken s
       \<and> streamError s' = streamError s \<and> pending s' = pending s
       \<and> fetchCalls (run later s') = fetchCalls s
       \<and> realTimeResults (step (Settle i fr now) s') = realTimeResults (step (Settle i fr now) s)
       \<and> spoken (step (Settle i fr now) s') = spoken (step (Settle i fr now) s)
       \<and> streamError (step (Settle i fr now) s') = streamError (step (Settle i fr now) s)
       \<and> (elapsed fr < abortAfter \<longrightarrow> settled fr = Inr resp \<longrightarrow> resp_ok resp \<longrightarrow>
            resp_json resp = Settled (Inr result) \<longrightarrow> truthy (fieldOf result ''success'') \<longrightarrow>
            fieldOf result ''answer'' = Some a \<longrightarrow> truthy (Some a) \<longrightarrow>
              realTimeResults (step (Settle i fr now) s') =
                appendResult (realTimeResults s)
                  \<lparr> timestamp = now,
                    answer = (if a = JStr ''unanswerable'' \<or> a = JStr ''unsuitable''
                              then JStr ''object'' else a),
                    question = orElse (fieldOf result ''question'') (JStr defaultQuestion) \<rparr>
              \<and> spoken (step (Settle i fr now) s') =
                  spoken s @ [if a = JStr ''unanswerable'' \<or> a = JStr ''unsuitable''
                              then JStr ''object'' else a])"
proof -
  have t: "tracked s"
    unfolding assms(1) by (rule tracked_run [OF tracked_init])
  have a: "stopRecording rd s = Inr s'"
    unfolding assms(2) by (rule stopRecording_total)
  have b: "realTimeResults s' = realTimeResults s" "spoken s' = spoken s"
    "streamError s' = streamError s" "pending s' = pending s" "fetchCalls s' = fetchCalls s"
    unfolding assms(2) using stopRecording_fields [of rd s] by simp_all
  have c: "fetchCalls (run later s') = fetchCalls s'"
    unfolding assms(2)
    by (rule idle_run [OF streamingTimers_stopRecording [OF t] stopRecording_ref [OF t]
          assms(4)])
  note d = late_settle_same_outcome [OF b(1,2,3,4), of i fr now]
  have e: "realTimeResults (step (Settle i fr now) s') =
             appendResult (realTimeResults s)
               \<lparr> timestamp = now,
                 answer = (if a = JStr ''unanswerable'' \<or> a = JStr ''unsuitable''
                           then JStr ''object'' else a),
                 question = orElse (fieldOf result ''question'') (JStr defaultQuestion) \<rparr>
           \<and> spoken (step (Settle i fr now) s') =
               spoken s @ [if a = JStr ''unanswerable'' \<or> a = JStr ''unsuitable''
                           then JStr ''object'' else a]"
    if "elapsed fr < abortAfter" "settled fr = Inr resp" "resp_ok resp"
      "resp_json resp = Settled (Inr result)" "truthy (fieldOf result ''success'')"
      "fieldOf result ''answer'' = Some a" "truthy (Some a)"
    using resume_success [OF that, of now] assms(3) b by simp
  show ?thesis
    using a b c d e by (simp del: step.simps)
qed

theorem stopRecording_does_not_cancel_request_witness:
  "stopRecording None awaiting = Inr (step (StopRecording None) awaiting)
   \<and> map req_data (pending (step (StopRecording None) awaiting)) = [''data:a'']
   \<and> fetchCalls (run [Fire 1 (Some readyVideo) True ''data:b'' 3500,
                       Fire 2 (Some readyVideo) True [] 4000, StopCamera]
                  (step (StopRecording None) awaiting)) = 1
   \<and> realTimeResults (step (Settle 0 (answerResponse 800 ''unsuitable'') 1800)
                        (step (StopRecording None) awaiting)) =
       [\<lparr> timestamp = 1800, answer = JStr ''object'',
          question = JStr ''what is in the picture'' \<rparr>]
   \<and> spoken (step (Settle 0 (answerResponse 800 ''unsuitable'') 1800)
                (step (StopRecording None) awaiting)) = [JStr ''object'']
   \<and> streamError (step (Settle 0 overloadedResponse 1300)
                     (step (StopRecording None) awaiting)) =
       streamError (step (Settle 0 overloadedResponse 1300) awaiting)"
proof -
  let ?evs = "[StartCamera None, StartRecording (Some readyVideo) None None, firstTick]"
  let ?later = "[Fire 1 (Some readyVideo) True ''data:b'' 3500,
                 Fire 2 (Some readyVideo) True [] 4000, StopCamera]"
  let ?r = "JObj [(''success'', JBool True), (''answer'', JStr ''unsuitable'')]"
  let ?resp = "\<lparr> resp_status = 200, resp_text = Settled (Inr []),
                 resp_json = Settled (Inr ?r) \<rparr>"
  have a: "awaiting = run ?evs (init localUrl)"
    by (simp add: awaiting_def streaming_def run_def)
  have b: "0 < length (pending awaiting)"
    by (simp add: awaiting_eval)
  have c: "list_all (\<lambda>e. \<not> isStartRecording e) ?later"
    by simp
  have d: "elapsed (answerResponse 800 ''unsuitable'') < abortAfter"
    "settled (answerResponse 800 ''unsuitable'') = Inr ?resp" "resp_ok ?resp"
    "resp_json ?resp = Settled (Inr ?r)" "truthy (fieldOf ?r ''success'')"
    "fieldOf ?r ''answer'' = Some (JStr ''unsuitable'')" "truthy (Some (JStr ''unsuitable''))"
    by (simp_all add: sample_defs abortAfter_def resp_ok_def fieldOf_def)
  have e: "realTimeResults awaiting = []" "spoken awaiting = []" "fetchCalls awaiting = 1"
    "map req_data (pending awaiting) = [''data:a'']"
    by (simp_all add: awaiting_eval)
  note w1 = stopRecording_does_not_cancel_request
              [OF a refl b c, of None "answerResponse 800 ''unsuitable''" 1800 ?resp ?r
                 "JStr ''unsuitable''"]
  note w2 = stopRecording_does_not_cancel_request
              [OF a refl b c, of None overloadedResponse 1300 ?resp ?r "JStr ''unsuitable''"]
  from w1 have p1: "stopRecording None awaiting = Inr (step (StopRecording None) awaiting)"
    and p2: "pending (step (StopRecording None) awaiting) = pending awaiting"
    and p3: "fetchCalls (run ?later (step (StopRecording None) awaiting)) = fetchCalls awaiting"
    by blast+
  from w1 d have p4: "realTimeResults (step (Settle 0 (answerResponse 800 ''unsuitable'') 1800)
                        (step (StopRecording None) awaiting)) =
       appendResult (realTimeResults awaiting)
         \<lparr> timestamp = 1800,
           answer = (if JStr ''unsuitable'' = JStr ''unanswerable''
                        \<or> JStr ''unsuitable'' = JStr ''unsuitable''
                     then JStr ''object'' else JStr ''unsuitable''),
           question = orElse (fieldOf ?r ''question'') (JStr defaultQuestion) \<rparr>"
    and p5: "spoken (step (Settle 0 (answerResponse 800 ''unsuitable'') 1800)
                (step (StopRecording None) awaiting)) =
       spoken awaiting @ [if JStr ''unsuitable'' = JStr ''unanswerable''
                             \<or> JStr ''unsuitable'' = JStr ''unsuitable''
                          then JStr ''object'' else JStr ''unsuitable'']"
    by blast+
  from w2 have p6: "streamError (step (Settle 0 overloadedResponse 1300)
                     (step (StopRecording None) awaiting)) =
       streamError (step (Settle 0 overloadedResponse 1300) awaiting)"
    by blast
  show ?thesis
    unfolding p2 p3 p4 p5
    using p1 p6
    by (simp add: e appendResult_def sliceLast_def orElse_def defaultQuestion_def fieldOf_def
        del: step.simps)
qed

subsection \<open>Overlapping requests\<close>

text \<open>A tick that finds the in-flight flag set returns at once.\<close>

lemma tick_skipped_while_in_flight:
  "frameInFlightRef s \<Longrightarrow> streamingTick url videoEl ctx jpegDataUrl now s = s"
  by (simp add: streamingTick_def)

text \<open>
  While nothing but ticks and settled requests happens, the flag does its work: from a
  state with at most one request outstanding, and the flag set when there is one, no
  second request is ever sent.
\<close>

lemma singleFlight_step:
  assumes "singleFlight s" and "isLoopEvent e"
  shows "singleFlight (step e s)"
proof (cases e)
  case (Fire h v c d now)
  with assms(1) show ?thesis
    by (auto simp: singleFlight_def streamingTick_def Let_def
        split: option.splits callback.splits)
next
  case (Settle i fr now)
  let ?t = "s\<lparr> pending := take i (pending s) @ drop (Suc i) (pending s) \<rparr>"
  show ?thesis
  proof (cases "i < length (pending s)")
    case False
    with Settle assms(1) show ?thesis
      by simp
  next
    case True
    with assms(1) have one: "pending ?t = []"
      by (auto simp: singleFlight_def)
    show ?thesis
    proof (cases "streamingResume fr now ?t")
      case None
      with Settle True assms(1) show ?thesis
        by simp
    next
      case (Some t')
      with resume_fields(5) [OF Some] one have "pending t' = []"
        by simp
      with Settle True Some show ?thesis
        by (simp add: singleFlight_def)
    qed
  qed
qed (use assms(2) in simp_all)

lemma single_session_one_request:
  assumes "singleFlight s" and "list_all isLoopEvent evs"
  shows "length (pending (run evs s)) \<le> 1"
proof -
  have "singleFlight (run evs s)"
    using assms unfolding run_def
    by (induction evs arbitrary: s) (simp_all add: singleFlight_step)
  then show ?thesis
    by (auto simp: singleFlight_def)
qed

lemma fresh_session_one_request:
  "list_all isLoopEvent evs \<Longrightarrow> length (pending (run evs streaming)) \<le> 1"
  by (rule single_session_one_request) (simp_all add: singleFlight_def streaming_eval)

text \<open>
  Claim C1. The bound of one outstanding request is broken by a stop followed by a new
  start while a request is outstanding. \<open>stopRecording\<close> and \<open>startFrameStreaming\<close>
  reset the flag although request \<open>a\<close> is still under way, so the first tick of the new
  loop sends \<open>b\<close> next to it. When \<open>a\<close> then settles, its \<open>finally\<close> block clears the
  flag that now guards \<open>b\<close>, and the following tick sends \<open>c\<close> while \<open>b\<close> is
  outstanding.
\<close>

theorem restart_overlaps_requests:
  "map req_data (pending (run
      [StartCamera None,
       StartRecording (Some readyVideo) None None,
       Fire 1 (Some readyVideo) True ''data:a'' 1000,
       StopRecording None,
       StartRecording (Some readyVideo) None None,
       Fire 3 (Some readyVideo) True ''data:b'' 6500] (init localUrl))) =
     [''data:a'', ''data:b'']
   \<and> map req_data (pending (run
      [StartCamera None,
       StartRecording (Some readyVideo) None None,
       Fire 1 (Some readyVideo) True ''data:a'' 1000,
       StopRecording None,
       StartRecording (Some readyVideo) None None,
       Fire 3 (Some readyVideo) True ''data:b'' 6500,
       Settle 0 (answerResponse 7000 ''dog'') 8000,
       Fire 3 (Some readyVideo) True ''data:c'' 9000] (init localUrl))) =
     [''data:b'', ''data:c'']"
  by (simp add: run_def init_def handler_defs sample_defs resume_defs abortAfter_def
      resp_ok_def appendResult_def sliceLast_def orElse_def)

end
